theory Spec2Isabelle
  imports Main
begin

section \<open>Data model\<close>

text \<open>
  The two services of \<^verbatim>\<open>comment.service.ts\<close> (\<^verbatim>\<open>CommentService\<close> and
  \<^verbatim>\<open>PostService\<close>) work on rows of a relational store reached through an ORM client.
  A row is a record, a table is the list of its rows in storage order, and the store is a
  record of tables that every mutating operation takes and returns.  A \<^verbatim>\<open>Date\<close> is the
  number of milliseconds since the epoch, so \<^verbatim>\<open>new Date(0)\<close> is \<open>0\<close>; a nullable column
  is an \<open>option\<close>.  A \<^verbatim>\<open>Date\<close> object is truthy whatever its value, hence
  \<^verbatim>\<open>!comment.deletedAt\<close> is \<open>deletedAt c = None\<close>.

  Field names are those of the source; a name used by several row types carries a suffix
  (\<open>_c\<close> comment, \<open>_p\<close> post, \<open>_s\<close> post stats, \<open>_pl\<close> post like, \<open>_cl\<close> comment like,
  \<open>_u\<close> user row, \<open>_a\<close> author summary).
\<close>

type_synonym date = int

datatype error =
    NotFound | Unauthorized | BadRequest
  | RecordNotFound | UniqueConstraint

text \<open>
  \<open>NotFound\<close>, \<open>Unauthorized\<close> and \<open>BadRequest\<close> are the three \<^verbatim>\<open>AppErrorException\<close>
  kinds the services throw.  \<open>RecordNotFound\<close> and \<open>UniqueConstraint\<close> are the errors of
  the ORM client: an \<^verbatim>\<open>update\<close> or \<^verbatim>\<open>delete\<close> whose \<^verbatim>\<open>where\<close> selects no row, and a
  \<^verbatim>\<open>create\<close> that repeats a unique key.  The services catch neither.
\<close>

record user =
  id_u :: string
  username_u :: string

record author =
  id_a :: "string option"
  username_a :: "string option"

record comment =
  id_c :: string
  text_c :: string
  userId_c :: "string option"
  postId_c :: string
  parentCommentId :: "string option"
  level :: int
  likes_c :: int
  subCommentsCount :: int
  deletedAt :: "date option"
  createdAt_c :: date
  updatedAt_c :: date

record comment_user = comment +
  user_c :: author

record comment_liked = comment_user +
  isLiked_c :: bool

record comment_shown = comment_liked +
  isDeleted :: bool

record comment_grouped = comment_shown +
  subComments :: "comment_shown list"

record commentLike =
  commentId_cl :: string
  userId_cl :: string

record post =
  id_p :: string
  slug :: string
  title :: string
  body :: string
  userId_p :: string
  createdAt_p :: date
  updatedAt_p :: date

record postStats =
  postId_s :: string
  likes_s :: int
  commentsCount :: int

record post_incl = post +
  user_p :: author
  postStats_p :: "postStats option"

record post_liked = post_incl +
  isLiked_p :: bool

record postLike =
  postId_pl :: string
  userId_pl :: string

record db =
  user_tbl :: "user list"
  post_tbl :: "post list"
  postStats_tbl :: "postStats list"
  postLike_tbl :: "postLike list"
  comment_tbl :: "comment list"
  commentLike_tbl :: "commentLike list"

text \<open>
  \<open>comment\<close> is the stored row.  \<open>userId_c\<close> is nullable in the model because the
  masking of \<^verbatim>\<open>hideDeletedComments\<close> writes \<^verbatim>\<open>null\<close> into it; every stored row has
  \<open>Some\<close> author id.  The extensions follow the object spreads of the source:
  \<open>comment_user\<close> is a row fetched with \<^verbatim>\<open>include: {user: {select: {id, username}}}\<close>,
  \<open>comment_liked\<close> adds \<^verbatim>\<open>isLiked\<close>, \<open>comment_shown\<close> adds \<^verbatim>\<open>isDeleted\<close>, and
  \<open>comment_grouped\<close> adds \<^verbatim>\<open>subComments\<close>.
\<close>

section \<open>The persistence client\<close>

text \<open>
  The ORM client is not part of the sources.  Its operations are modelled by what the
  services rely on: a lookup by a unique key returns the row with that key, \<^verbatim>\<open>update\<close>
  and \<^verbatim>\<open>delete\<close> by a unique key change exactly that row and raise when there is none,
  \<^verbatim>\<open>create\<close> raises when a unique key is repeated, \<^verbatim>\<open>count\<close> counts the rows that
  satisfy the filter, and \<^verbatim>\<open>findMany\<close> sorts stably by the \<^verbatim>\<open>orderBy\<close> keys.  The
  unique keys are those the source passes to \<^verbatim>\<open>findUnique\<close>: the id of a post or comment,
  the slug of a post, the post id of a stats row and the (subject, user) pair of a like.
  Foreign keys are not modelled.
\<close>

fun update_first :: "('a \<Rightarrow> bool) \<Rightarrow> ('a \<Rightarrow> 'a) \<Rightarrow> 'a list \<Rightarrow> 'a list option" where
  "update_first P f [] = None"
| "update_first P f (x # xs) =
     (if P x then Some (f x # xs) else map_option ((#) x) (update_first P f xs))"

fun delete_first :: "('a \<Rightarrow> bool) \<Rightarrow> 'a list \<Rightarrow> 'a list option" where
  "delete_first P [] = None"
| "delete_first P (x # xs) =
     (if P x then Some xs else map_option ((#) x) (delete_first P xs))"

definition count_where :: "('a \<Rightarrow> bool) \<Rightarrow> 'a list \<Rightarrow> int" where
  "count_where P xs = int (length (filter P xs))"

definition include_user :: "db \<Rightarrow> string option \<Rightarrow> author" where
  "include_user s uid =
     (case uid of
        None \<Rightarrow> \<lparr>id_a = None, username_a = None\<rparr>
      | Some u \<Rightarrow>
          (case find (\<lambda>r. id_u r = u) (user_tbl s) of
             None \<Rightarrow> \<lparr>id_a = None, username_a = None\<rparr>
           | Some r \<Rightarrow> \<lparr>id_a = Some (id_u r), username_a = Some (username_u r)\<rparr>))"

text \<open>
  \<open>include_user\<close> is the \<^verbatim>\<open>include: {user: {select: {id: true, username: true}}}\<close> of the
  queries.  An author id that names no user row cannot be stored under the foreign key
  of the schema; the model gives the null summary there.
\<close>

definition comment_with_user :: "db \<Rightarrow> comment \<Rightarrow> comment_user" where
  "comment_with_user s c =
     comment.extend c (comment_user.fields (include_user s (userId_c c)))"

subsection \<open>Plain objects used as dictionaries\<close>

text \<open>
  \<^verbatim>\<open>getCommentLikeMap\<close> and \<^verbatim>\<open>getPostLikedMap\<close> collect like rows in a plain object
  \<^verbatim>\<open>{}\<close>, written with \<^verbatim>\<open>acc[key] = row\<close> and read with \<^verbatim>\<open>map?.[key]\<close>.  A plain object
  is not a finite map: a read that finds no own property goes on to the prototype, so a
  key that is a property name of \<^verbatim>\<open>Object.prototype\<close> reads as a function, and the
  assignment to the key \<^verbatim>\<open>__proto__\<close> sets the prototype of the object to the row instead
  of storing a property.  \<open>'a js_object\<close> is such an object whose own properties are rows
  of type \<open>'a\<close>: \<open>own\<close> holds them, \<open>proto\<close> is the row that has become the prototype, if
  any.  \<open>js_get\<close> takes the columns of a row, which are the own properties of the row
  object; a read returns a \<open>js_value\<close>, and \<open>js_truthy\<close> is \<^verbatim>\<open>!!v\<close>.
\<close>

datatype 'a js_value = JsUndefined | JsObject 'a | JsObjectPrototype | JsString string | JsFunction

definition js_truthy :: "'a js_value \<Rightarrow> bool" where
  "js_truthy v = (case v of JsUndefined \<Rightarrow> False | JsString x \<Rightarrow> x \<noteq> '''' | _ \<Rightarrow> True)"

definition objectPrototypeKeys :: "string list" where
  "objectPrototypeKeys =
     [''constructor'', ''__defineGetter__'', ''__defineSetter__'', ''hasOwnProperty'',
      ''__lookupGetter__'', ''__lookupSetter__'', ''isPrototypeOf'', ''propertyIsEnumerable'',
      ''toString'', ''valueOf'', ''toLocaleString'']"

text \<open>
  The property names of \<^verbatim>\<open>Object.prototype\<close> whose values are functions; its one other
  property, the accessor \<^verbatim>\<open>__proto__\<close>, is treated in \<open>js_set\<close> and \<open>js_get\<close>.
\<close>

record 'a js_object =
  own :: "string \<rightharpoonup> 'a"
  proto :: "'a option"

definition js_empty :: "'a js_object" where
  "js_empty = \<lparr>own = Map.empty, proto = None\<rparr>"

definition js_set :: "'a js_object \<Rightarrow> string \<Rightarrow> 'a \<Rightarrow> 'a js_object" where
  "js_set obj k v =
     (if k = ''__proto__'' then obj\<lparr>proto := Some v\<rparr> else obj\<lparr>own := (own obj)(k \<mapsto> v)\<rparr>)"

definition js_get :: "('a \<Rightarrow> string \<rightharpoonup> string) \<Rightarrow> 'a js_object \<Rightarrow> string \<Rightarrow> 'a js_value" where
  "js_get columns obj k =
     (case own obj k of
        Some v \<Rightarrow> JsObject v
      | None \<Rightarrow>
          if k = ''__proto__''
          then (case proto obj of None \<Rightarrow> JsObjectPrototype | Some v \<Rightarrow> JsObject v)
          else
            (case (case proto obj of None \<Rightarrow> None | Some v \<Rightarrow> columns v k) of
               Some x \<Rightarrow> JsString x
             | None \<Rightarrow> if k \<in> set objectPrototypeKeys then JsFunction else JsUndefined))"

definition commentLike_columns :: "commentLike \<Rightarrow> string \<rightharpoonup> string" where
  "commentLike_columns l = map_of [(''commentId'', commentId_cl l), (''userId'', userId_cl l)]"

definition postLike_columns :: "postLike \<Rightarrow> string \<rightharpoonup> string" where
  "postLike_columns l = map_of [(''postId'', postId_pl l), (''userId'', userId_pl l)]"

text \<open>
  The columns of a like row are the two that the source writes when it creates one
  (\<^verbatim>\<open>data: { commentId, userId }\<close>, \<^verbatim>\<open>data: { postId, userId }\<close>).
\<close>

section \<open>CommentService\<close>

definition comment_findMany :: "db \<Rightarrow> string \<Rightarrow> comment_user list" where
  "comment_findMany s pid =
     map (comment_with_user s)
       (sort_key createdAt_c (sort_key level
          (filter (\<lambda>c. postId_c c = pid) (comment_tbl s))))"

text \<open>
  \<^verbatim>\<open>orderBy: [{createdAt: 'asc'}, {level: 'asc'}]\<close>: \<open>sort_key\<close> is a stable insertion
  sort, so sorting by level first and by creation time second orders by creation time
  and, among equal creation times, by level.
\<close>

definition getCommentLikeMap :: "db \<Rightarrow> string list \<Rightarrow> string \<Rightarrow> commentLike js_object" where
  "getCommentLikeMap s commentIds userId =
     foldl (\<lambda>acc cur. js_set acc (commentId_cl cur) cur) js_empty
       (filter (\<lambda>l. commentId_cl l \<in> set commentIds \<and> userId_cl l = userId)
          (commentLike_tbl s))"

definition mergeCommentLikeMap :: "comment_user \<Rightarrow> commentLike js_value \<Rightarrow> comment_liked" where
  "mergeCommentLikeMap c commentLike =
     comment_user.extend c (comment_liked.fields (js_truthy commentLike))"

definition hideDeletedComment :: "comment_liked \<Rightarrow> comment_shown" where
  "hideDeletedComment c =
     (if deletedAt c = None then comment_liked.extend c (comment_shown.fields False)
      else comment_liked.extend
             (c\<lparr>text_c := '''', likes_c := 0, userId_c := None,
                user_c := \<lparr>id_a = None, username_a = None\<rparr>,
                createdAt_c := 0, updatedAt_c := 0\<rparr>)
             (comment_shown.fields True))"

definition hideDeletedComments :: "comment_liked list \<Rightarrow> comment_shown list" where
  "hideDeletedComments cs = map hideDeletedComment cs"

text \<open>
  \<open>hideDeletedComment\<close> is the body of the arrow function that \<^verbatim>\<open>hideDeletedComments\<close>
  maps over the list.
\<close>

definition bucket :: "(string \<rightharpoonup> comment_shown list) \<Rightarrow> comment_shown \<Rightarrow> (string \<rightharpoonup> comment_shown list)" where
  "bucket subCommentsMap c =
     (case parentCommentId c of
        None \<Rightarrow> subCommentsMap
      | Some p \<Rightarrow>
          if p = '''' then subCommentsMap
          else subCommentsMap
                 (p \<mapsto> (case subCommentsMap p of None \<Rightarrow> [] | Some subs \<Rightarrow> subs) @ [c]))"

text \<open>
  \<open>bucket\<close> is the body of the \<^verbatim>\<open>forEach\<close> of \<^verbatim>\<open>groupSubComments\<close>, on the
  \<^verbatim>\<open>Map\<close> it fills.  The guard \<^verbatim>\<open>!comment.parentCommentId\<close> holds for \<^verbatim>\<open>null\<close> and
  for the empty string; \<^verbatim>\<open>get(...) ?? []\<close> reads the bucket, \<^verbatim>\<open>push\<close> appends to it.
\<close>

definition groupSubComments :: "comment_shown list \<Rightarrow> comment_grouped list" where
  "groupSubComments comments =
     (let rootComments = filter (\<lambda>c. parentCommentId c = None) comments;
          subCommentsMap = foldl bucket Map.empty comments
      in map (\<lambda>rootComment.
                comment_shown.extend rootComment
                  (comment_grouped.fields
                     (case subCommentsMap (id_c rootComment) of
                        None \<Rightarrow> [] | Some subs \<Rightarrow> subs)))
           rootComments)"

definition truthy :: "string option \<Rightarrow> string option" where
  "truthy v = (case v of None \<Rightarrow> None | Some x \<Rightarrow> if x = '''' then None else Some x)"

text \<open>
  \<open>truthy\<close> is the test \<^verbatim>\<open>v ? ... : ...\<close> on an optional string: \<^verbatim>\<open>undefined\<close>,
  \<^verbatim>\<open>null\<close> and the empty string take the second branch.
\<close>

definition findComments :: "db \<Rightarrow> string \<Rightarrow> string option \<Rightarrow> error + comment_grouped list" where
  "findComments s slug' userId =
     (case find (\<lambda>p. slug p = slug') (post_tbl s) of
        None \<Rightarrow> Inl NotFound
      | Some post \<Rightarrow>
          let comments = comment_findMany s (id_p post);
              commetLikedMap = map_option (getCommentLikeMap s (map id_c comments)) (truthy userId);
              commentsWithLiked =
                map (\<lambda>c. mergeCommentLikeMap c
                            (case commetLikedMap of
                               None \<Rightarrow> JsUndefined
                             | Some m \<Rightarrow> js_get commentLike_columns m (id_c c)))
                  comments;
              filteredComments = hideDeletedComments commentsWithLiked
          in Inr (groupSubComments filteredComments))"

definition findComment :: "db \<Rightarrow> string \<Rightarrow> error + comment_user" where
  "findComment s commentId =
     (case find (\<lambda>c. id_c c = commentId) (comment_tbl s) of
        None \<Rightarrow> Inl NotFound
      | Some c \<Rightarrow> if deletedAt c \<noteq> None then Inl NotFound else Inr (comment_with_user s c))"

record createCommentDto =
  text_dto :: string
  postId_dto :: string
  parentCommentId_dto :: "string option"

definition comment_create :: "comment \<Rightarrow> db \<Rightarrow> (error + comment) \<times> db" where
  "comment_create c s =
     (if find (\<lambda>r. id_c r = id_c c) (comment_tbl s) \<noteq> None then (Inl UniqueConstraint, s)
      else (Inr c, s\<lparr>comment_tbl := comment_tbl s @ [c]\<rparr>))"

definition comment_update :: "string \<Rightarrow> (comment \<Rightarrow> comment) \<Rightarrow> db \<Rightarrow> (error + unit) \<times> db" where
  "comment_update commentId f s =
     (case update_first (\<lambda>c. id_c c = commentId) f (comment_tbl s) of
        None \<Rightarrow> (Inl RecordNotFound, s)
      | Some cs \<Rightarrow> (Inr (), s\<lparr>comment_tbl := cs\<rparr>))"

text \<open>
  \<open>comment_update\<close> writes the fields named in the \<^verbatim>\<open>data\<close> of the call, as the
  function \<open>f\<close>.  Whether the schema also stamps \<^verbatim>\<open>updatedAt\<close> on every update is not in
  the sources, so no theorem below says anything about \<open>updatedAt_c\<close> after an update.
\<close>

definition postStats_update :: "string \<Rightarrow> (postStats \<Rightarrow> postStats) \<Rightarrow> db \<Rightarrow> (error + postStats) \<times> db" where
  "postStats_update postId f s =
     (case find (\<lambda>r. postId_s r = postId) (postStats_tbl s) of
        None \<Rightarrow> (Inl RecordNotFound, s)
      | Some r \<Rightarrow>
          (case update_first (\<lambda>r. postId_s r = postId) f (postStats_tbl s) of
             None \<Rightarrow> (Inl RecordNotFound, s)
           | Some rs \<Rightarrow> (Inr (f r), s\<lparr>postStats_tbl := rs\<rparr>)))"

definition updatePostCommentsCount :: "string \<Rightarrow> db \<Rightarrow> (error + int) \<times> db" where
  "updatePostCommentsCount postId s =
     (let commentsCount' = count_where (\<lambda>c. postId_c c = postId) (comment_tbl s)
      in case postStats_update postId (\<lambda>r. r\<lparr>commentsCount := commentsCount'\<rparr>) s of
           (Inl e, s') \<Rightarrow> (Inl e, s')
         | (Inr _, s') \<Rightarrow> (Inr commentsCount', s'))"

text \<open>
  Modelled from the spec: the schema with the column defaults of a comment is not in the
  sources.  A comment created without a parent has level 0, and a new comment has no
  likes, no sub-comments and no delete timestamp (spec, data model: ``level (0 = root,
  1 = reply)'', ``soft-delete timestamp (null = alive)'').  \<open>newId\<close> is the id the store
  gives the new row and \<open>now\<close> the time of the call.
\<close>

definition createComment ::
  "string \<Rightarrow> date \<Rightarrow> string \<Rightarrow> createCommentDto \<Rightarrow> db \<Rightarrow> (error + comment) \<times> db" where
  "createComment newId now userId dto s =
     (case (case truthy (parentCommentId_dto dto) of
              None \<Rightarrow> Inr None
            | Some pid \<Rightarrow> map_sum (\<lambda>e. e) Some (findComment s pid)) of
        Inl e \<Rightarrow> (Inl e, s)
      | Inr parentComment \<Rightarrow>
          let comment =
                \<lparr>id_c = newId, text_c = text_dto dto, userId_c = Some userId,
                 postId_c = postId_dto dto, parentCommentId = map_option id_c parentComment,
                 level = (case parentComment of None \<Rightarrow> 0 | Some p \<Rightarrow> level p + 1),
                 likes_c = 0, subCommentsCount = 0, deletedAt = None,
                 createdAt_c = now, updatedAt_c = now\<rparr>
          in if parentComment \<noteq> None \<and> level comment \<ge> 2 then (Inl BadRequest, s)
             else
               (case comment_create comment s of
                  (Inl e, s1) \<Rightarrow> (Inl e, s1)
                | (Inr createComment', s1) \<Rightarrow>
                    (case (case parentComment of
                             None \<Rightarrow> (Inr (), s1)
                           | Some p \<Rightarrow>
                               let subCommentsCount' =
                                     count_where (\<lambda>c. parentCommentId c = Some (id_c p))
                                       (comment_tbl s1)
                               in comment_update (id_c p)
                                    (\<lambda>c. c\<lparr>subCommentsCount := subCommentsCount'\<rparr>) s1) of
                       (Inl e, s2) \<Rightarrow> (Inl e, s2)
                     | (Inr _, s2) \<Rightarrow>
                         (case updatePostCommentsCount (postId_dto dto) s2 of
                            (Inl e, s3) \<Rightarrow> (Inl e, s3)
                          | (Inr _, s3) \<Rightarrow> (Inr createComment', s3)))))"

definition deleteComment :: "date \<Rightarrow> string \<Rightarrow> string \<Rightarrow> db \<Rightarrow> (error + comment) \<times> db" where
  "deleteComment now userId commentId s =
     (case findComment s commentId of
        Inl e \<Rightarrow> (Inl e, s)
      | Inr comment \<Rightarrow>
          if userId_c comment \<noteq> Some userId then (Inl Unauthorized, s)
          else
            (case comment_update commentId (\<lambda>c. c\<lparr>deletedAt := Some now\<rparr>) s of
               (Inl e, s') \<Rightarrow> (Inl e, s')
             | (Inr _, s') \<Rightarrow>
                 (case find (\<lambda>c. id_c c = commentId) (comment_tbl s') of
                    None \<Rightarrow> (Inl RecordNotFound, s')
                  | Some deletedComment \<Rightarrow> (Inr deletedComment, s'))))"

section \<open>PostService\<close>

definition post_with_includes :: "db \<Rightarrow> post \<Rightarrow> post_incl" where
  "post_with_includes s p =
     post.extend p
       (post_incl.fields (include_user s (Some (userId_p p)))
          (find (\<lambda>r. postId_s r = id_p p) (postStats_tbl s)))"

definition post_findMany :: "db \<Rightarrow> nat \<Rightarrow> nat \<Rightarrow> string option \<Rightarrow> post_incl list" where
  "post_findMany s take' skip cursor =
     (let ordered = sort_key (\<lambda>p. - createdAt_p p) (post_tbl s);
          from_cursor =
            (case cursor of
               None \<Rightarrow> ordered
             | Some c \<Rightarrow> dropWhile (\<lambda>p. id_p p \<noteq> c) ordered)
      in map (post_with_includes s) (take take' (drop skip from_cursor)))"

text \<open>
  \<open>post_findMany\<close> is \<^verbatim>\<open>findMany\<close> with \<^verbatim>\<open>take\<close>, \<^verbatim>\<open>skip\<close>, \<^verbatim>\<open>cursor\<close> and
  \<^verbatim>\<open>orderBy: {createdAt: 'desc'}\<close>: the rows are ordered newest first (stably, so rows
  of equal creation time keep their storage order), the result starts at the row the
  cursor names, or at the first row when there is no cursor, \<^verbatim>\<open>skip\<close> rows are passed
  over from there and at most \<^verbatim>\<open>take\<close> rows are returned.  A cursor that names no row
  gives the empty list.
\<close>

definition getPostLikedMap :: "db \<Rightarrow> string list \<Rightarrow> string \<Rightarrow> postLike js_object" where
  "getPostLikedMap s postIds userId =
     foldl (\<lambda>acc cur. js_set acc (postId_pl cur) cur) js_empty
       (filter (\<lambda>l. postId_pl l \<in> set postIds \<and> userId_pl l = userId) (postLike_tbl s))"

definition mergePostLiked :: "post_incl \<Rightarrow> postLike js_value \<Rightarrow> post_liked" where
  "mergePostLiked p postLike = post_incl.extend p (post_liked.fields (js_truthy postLike))"

definition nth_opt :: "'a list \<Rightarrow> nat \<Rightarrow> 'a option" where
  "nth_opt xs i = (if i < length xs then Some (xs ! i) else None)"

text \<open>
  \<open>nth_opt\<close> is the array read \<^verbatim>\<open>xs[i]\<close>, which is \<^verbatim>\<open>undefined\<close> past the end; with
  \<open>map_option\<close> it is the read \<^verbatim>\<open>xs[i]?.id\<close>.
\<close>

definition findPostsByQuries :: "db \<Rightarrow> string option \<Rightarrow> string option \<Rightarrow> post_liked list \<times> string option" where
  "findPostsByQuries s cursor userId =
     (let size' = 20;
          posts = post_findMany s size' 1 (truthy cursor);
          postLikedMap = map_option (getPostLikedMap s (map id_p posts)) (truthy userId);
          postsWithLiked =
            map (\<lambda>p. mergePostLiked p
                        (case postLikedMap of
                           None \<Rightarrow> JsUndefined
                         | Some m \<Rightarrow> js_get postLike_columns m (id_p p)))
              posts;
          nextCursor = map_option id_p (nth_opt postsWithLiked (size' - 1))
      in (postsWithLiked, nextCursor))"

text \<open>The result pair is the object \<^verbatim>\<open>{ posts, nextCursor }\<close>.\<close>

record createPostDto =
  title_dto :: string
  body_dto :: string

definition post_create :: "post \<Rightarrow> db \<Rightarrow> (error + post) \<times> db" where
  "post_create p s =
     (if find (\<lambda>r. id_p r = id_p p \<or> slug r = slug p) (post_tbl s) \<noteq> None
      then (Inl UniqueConstraint, s)
      else (Inr p, s\<lparr>post_tbl := post_tbl s @ [p]\<rparr>))"

definition postStats_create :: "postStats \<Rightarrow> db \<Rightarrow> (error + postStats) \<times> db" where
  "postStats_create r s =
     (if find (\<lambda>x. postId_s x = postId_s r) (postStats_tbl s) \<noteq> None
      then (Inl UniqueConstraint, s)
      else (Inr r, s\<lparr>postStats_tbl := postStats_tbl s @ [r]\<rparr>))"

text \<open>
  Modelled from the spec: the schema with the column defaults of a stats row is not in
  the sources.  The stats row created with only its post id has both counters zero (spec,
  4.1: ``persists post and an initial zeroed stats record'').

  \<^verbatim>\<open>slugify\<close> and \<^verbatim>\<open>generateId\<close> come from \<^verbatim>\<open>src/utils/slugify\<close>, which is not in
  the sources: \<open>slugify\<close> is a parameter, and \<open>generateId\<close> is the string that the one
  call of the random generator returns.  \<open>newId\<close> is the id the store gives the post and
  \<open>now\<close> the time of the call.
\<close>

definition createPost ::
  "(string \<Rightarrow> string) \<Rightarrow> string \<Rightarrow> string \<Rightarrow> date \<Rightarrow> string \<Rightarrow> createPostDto \<Rightarrow> db
     \<Rightarrow> (error + post) \<times> db" where
  "createPost slugify generateId newId now userId dto s =
     (let slug0 = slugify (title_dto dto);
          isSameSlugExists = find (\<lambda>p. slug p = slug0) (post_tbl s);
          slug1 = (if isSameSlugExists \<noteq> None then slug0 @ ''-'' @ generateId else slug0)
      in case post_create
                \<lparr>id_p = newId, slug = slug1, title = title_dto dto, body = body_dto dto,
                 userId_p = userId, createdAt_p = now, updatedAt_p = now\<rparr> s of
           (Inl e, s1) \<Rightarrow> (Inl e, s1)
         | (Inr post, s1) \<Rightarrow>
             (case postStats_create
                     \<lparr>postId_s = id_p post, likes_s = 0, commentsCount = 0\<rparr> s1 of
                (Inl e, s2) \<Rightarrow> (Inl e, s2)
              | (Inr _, s2) \<Rightarrow> (Inr post, s2)))"

definition updatePostLikes :: "string \<Rightarrow> db \<Rightarrow> (error + postStats) \<times> db" where
  "updatePostLikes postId s =
     (let likes = count_where (\<lambda>l. postId_pl l = postId) (postLike_tbl s)
      in postStats_update postId (\<lambda>r. r\<lparr>likes_s := likes\<rparr>) s)"

definition postLike_create :: "postLike \<Rightarrow> db \<Rightarrow> (error + unit) \<times> db" where
  "postLike_create l s =
     (if find (\<lambda>x. postId_pl x = postId_pl l \<and> userId_pl x = userId_pl l) (postLike_tbl s) \<noteq> None
      then (Inl UniqueConstraint, s)
      else (Inr (), s\<lparr>postLike_tbl := postLike_tbl s @ [l]\<rparr>))"

definition postLike_delete :: "string \<Rightarrow> string \<Rightarrow> db \<Rightarrow> (error + unit) \<times> db" where
  "postLike_delete postId userId s =
     (case delete_first (\<lambda>x. postId_pl x = postId \<and> userId_pl x = userId) (postLike_tbl s) of
        None \<Rightarrow> (Inl RecordNotFound, s)
      | Some ls \<Rightarrow> (Inr (), s\<lparr>postLike_tbl := ls\<rparr>))"

definition likePost :: "string \<Rightarrow> string \<Rightarrow> db \<Rightarrow> (error + postStats) \<times> db" where
  "likePost userId postId s =
     (let alreadyLiked =
            find (\<lambda>x. postId_pl x = postId \<and> userId_pl x = userId) (postLike_tbl s)
      in case (if alreadyLiked = None
               then postLike_create \<lparr>postId_pl = postId, userId_pl = userId\<rparr> s
               else (Inr (), s)) of
           (Inl e, s1) \<Rightarrow> (Inl e, s1)
         | (Inr _, s1) \<Rightarrow> updatePostLikes postId s1)"

definition unlikePost :: "string \<Rightarrow> string \<Rightarrow> db \<Rightarrow> (error + postStats) \<times> db" where
  "unlikePost userId postId s =
     (let alreadyLiked =
            find (\<lambda>x. postId_pl x = postId \<and> userId_pl x = userId) (postLike_tbl s)
      in case (if alreadyLiked \<noteq> None then postLike_delete postId userId s else (Inr (), s)) of
           (Inl e, s1) \<Rightarrow> (Inl e, s1)
         | (Inr _, s1) \<Rightarrow> updatePostLikes postId s1)"

section \<open>Sequences of calls and example data\<close>

datatype likeOp = Like string | Unlike string

fun applyLikeOp :: "string \<Rightarrow> likeOp \<Rightarrow> db \<Rightarrow> (error + postStats) \<times> db" where
  "applyLikeOp postId (Like userId) s = likePost userId postId s"
| "applyLikeOp postId (Unlike userId) s = unlikePost userId postId s"

fun runLikeOps :: "string \<Rightarrow> likeOp list \<Rightarrow> db \<Rightarrow> (error + unit) \<times> db" where
  "runLikeOps postId [] s = (Inr (), s)"
| "runLikeOps postId (op # ops) s =
     (case applyLikeOp postId op s of
        (Inl e, s') \<Rightarrow> (Inl e, s')
      | (Inr _, s') \<Rightarrow> runLikeOps postId ops s')"

text \<open>
  \<open>runLikeOps\<close> is a caller that issues \<^verbatim>\<open>likePost\<close> and \<^verbatim>\<open>unlikePost\<close> calls on one post
  one after the other, \<open>Like u\<close> and \<open>Unlike u\<close> naming the user of each call; like an
  uncaught exception, the first error ends the sequence.
\<close>

fun listAll :: "nat \<Rightarrow> db \<Rightarrow> string option \<Rightarrow> string option \<Rightarrow> post_liked list" where
  "listAll 0 s cursor userId = []"
| "listAll (Suc fuel) s cursor userId =
     (case findPostsByQuries s cursor userId of
        (posts, None) \<Rightarrow> posts
      | (posts, Some nextCursor) \<Rightarrow> posts @ listAll fuel s (Some nextCursor) userId)"

text \<open>
  \<open>listAll\<close> is a caller that pages through the posts: it calls \<^verbatim>\<open>findPostsByQuries\<close>
  with the given cursor, stops when the page has no \<^verbatim>\<open>nextCursor\<close> and otherwise goes
  on with the returned one.  The first argument bounds the number of calls.
\<close>

definition newest_first :: "db \<Rightarrow> post list" where
  "newest_first s = sort_key (\<lambda>p. - createdAt_p p) (post_tbl s)"

definition start_at :: "db \<Rightarrow> string option \<Rightarrow> post list" where
  "start_at s cursor =
     (case cursor of None \<Rightarrow> newest_first s
      | Some c \<Rightarrow> dropWhile (\<lambda>p. id_p p \<noteq> c) (newest_first s))"

text \<open>
  \<open>newest_first\<close> and \<open>start_at\<close> name the two steps of \<open>post_findMany\<close> before
  \<^verbatim>\<open>skip\<close> and \<^verbatim>\<open>take\<close>: the ordered table, and the part of it from the cursor row on.
\<close>

abbreviation bucket_of :: "comment_shown list option \<Rightarrow> comment_shown list" where
  "bucket_of v \<equiv> (case v of None \<Rightarrow> [] | Some subs \<Rightarrow> subs)"

definition shown_comment :: "commentLike js_object option \<Rightarrow> comment_user \<Rightarrow> comment_shown" where
  "shown_comment likedMap c =
     hideDeletedComment
       (mergeCommentLikeMap c
          (case likedMap of
             None \<Rightarrow> JsUndefined
           | Some m \<Rightarrow> js_get commentLike_columns m (id_c c)))"

text \<open>
  \<open>shown_comment\<close> names what \<^verbatim>\<open>findComments\<close> does to one fetched comment before the
  grouping: the call of \<^verbatim>\<open>mergeCommentLikeMap\<close> with the entry of the viewer's like map
  under the comment's id, \<^verbatim>\<open>commetLikedMap?.[comment.id]\<close>, and then the function that
  \<^verbatim>\<open>hideDeletedComments\<close> maps over the list.
\<close>

definition exA :: comment where
  "exA = \<lparr>id_c = ''A'', text_c = ''first'', userId_c = Some ''u1'', postId_c = ''p1'',
          parentCommentId = None, level = 0, likes_c = 1, subCommentsCount = 0,
          deletedAt = None, createdAt_c = 100, updatedAt_c = 100\<rparr>"

definition exB :: comment where
  "exB = \<lparr>id_c = ''B'', text_c = ''second'', userId_c = Some ''u2'', postId_c = ''p1'',
          parentCommentId = None, level = 0, likes_c = 0, subCommentsCount = 2,
          deletedAt = None, createdAt_c = 200, updatedAt_c = 200\<rparr>"

definition exB1 :: comment where
  "exB1 = \<lparr>id_c = ''B1'', text_c = ''reply one'', userId_c = Some ''u1'', postId_c = ''p1'',
           parentCommentId = Some ''B'', level = 1, likes_c = 0, subCommentsCount = 0,
           deletedAt = None, createdAt_c = 300, updatedAt_c = 300\<rparr>"

definition exC :: comment where
  "exC = \<lparr>id_c = ''C'', text_c = ''third'', userId_c = Some ''u1'', postId_c = ''p1'',
          parentCommentId = None, level = 0, likes_c = 4, subCommentsCount = 0,
          deletedAt = Some 900, createdAt_c = 400, updatedAt_c = 900\<rparr>"

definition exB2 :: comment where
  "exB2 = \<lparr>id_c = ''B2'', text_c = ''reply two'', userId_c = Some ''u2'', postId_c = ''p1'',
           parentCommentId = Some ''B'', level = 1, likes_c = 0, subCommentsCount = 0,
           deletedAt = None, createdAt_c = 500, updatedAt_c = 500\<rparr>"

definition exDb :: db where
  "exDb = \<lparr>user_tbl = [\<lparr>id_u = ''u1'', username_u = ''alice''\<rparr>,
                        \<lparr>id_u = ''u2'', username_u = ''bob''\<rparr>],
           post_tbl = [\<lparr>id_p = ''p1'', slug = ''hello'', title = ''Hello'', body = ''...'',
                        userId_p = ''u1'', createdAt_p = 10, updatedAt_p = 10\<rparr>],
           postStats_tbl = [\<lparr>postId_s = ''p1'', likes_s = 0, commentsCount = 5\<rparr>],
           postLike_tbl = [],
           comment_tbl = [exB2, exA, exC, exB, exB1],
           commentLike_tbl = [\<lparr>commentId_cl = ''A'', userId_cl = ''u2''\<rparr>]\<rparr>"

definition exDb2 :: db where
  "exDb2 = exDb\<lparr>post_tbl := post_tbl exDb @
              [\<lparr>id_p = ''p2'', slug = ''hello-x7'', title = ''Hello'', body = ''again'',
                userId_p = ''u2'', createdAt_p = 20, updatedAt_p = 20\<rparr>],
            postStats_tbl := postStats_tbl exDb @
              [\<lparr>postId_s = ''p2'', likes_s = 0, commentsCount = 0\<rparr>]\<rparr>"

text \<open>
  \<open>exDb\<close> is a store with one post, \<^verbatim>\<open>hello\<close>, written by alice, and its five comments:
  the roots \<open>A\<close>, \<open>B\<close> and \<open>C\<close>, created in that order, the replies \<open>B1\<close> and \<open>B2\<close> to
  \<open>B\<close>, and \<open>C\<close> soft-deleted.  The rows are stored out of creation order, so that the
  ordering of the query shows.  \<open>exDb2\<close> adds a second, newer post whose slug is
  \<^verbatim>\<open>hello-x7\<close>.
\<close>

definition exLiked :: "comment_liked list" where
  "exLiked = [mergeCommentLikeMap (comment_with_user exDb exA) JsUndefined,
              mergeCommentLikeMap (comment_with_user exDb exC) JsUndefined]"

definition exOrphans :: "comment_shown list" where
  "exOrphans = hideDeletedComments
                 [mergeCommentLikeMap (comment_with_user exDb exA) JsUndefined,
                  mergeCommentLikeMap (comment_with_user exDb exB1) JsUndefined]"

definition exNew :: comment where
  "exNew = \<lparr>id_c = ''N'', text_c = ''new'', userId_c = Some ''u2'', postId_c = ''p1'',
            parentCommentId = None, level = 0, likes_c = 0, subCommentsCount = 0,
            deletedAt = None, createdAt_c = 1000, updatedAt_c = 1000\<rparr>"

text \<open>
  \<open>exLiked\<close> is the live comment \<open>A\<close> and the soft-deleted comment \<open>C\<close> as they reach
  \<^verbatim>\<open>hideDeletedComments\<close> for an anonymous viewer.  \<open>exOrphans\<close> is a masked list that
  holds the root \<open>A\<close> and the reply \<open>B1\<close> without its parent \<open>B\<close>.  \<open>exNew\<close> is the row
  that bob's root comment \<^verbatim>\<open>new\<close> on the post becomes at time 1000 under the id \<open>N\<close>.
\<close>

definition exDbR :: db where
  "exDbR = exDb\<lparr>comment_tbl := [exB2\<lparr>deletedAt := Some 950\<rparr>, exA, exC, exB, exB1]\<rparr>"

definition exDbL :: db where
  "exDbL = exDb2\<lparr>postLike_tbl :=
               [\<lparr>postId_pl = ''p1'', userId_pl = ''u1''\<rparr>, \<lparr>postId_pl = ''p2'', userId_pl = ''u2''\<rparr>,
                \<lparr>postId_pl = ''p1'', userId_pl = ''u2''\<rparr>],
             postStats_tbl :=
               [\<lparr>postId_s = ''p2'', likes_s = 1, commentsCount = 0\<rparr>,
                \<lparr>postId_s = ''p1'', likes_s = 2, commentsCount = 5\<rparr>]\<rparr>"

text \<open>
  \<open>exDbR\<close> is \<open>exDb\<close> with the reply \<open>B2\<close> soft-deleted as well, at time 950.  \<open>exDbL\<close> is
  \<open>exDb2\<close> with likes: alice and bob like the post \<^verbatim>\<open>p1\<close>, bob also likes the post
  \<^verbatim>\<open>p2\<close>, and the stats row of \<^verbatim>\<open>p2\<close> is stored before the one of \<^verbatim>\<open>p1\<close>.
\<close>

section \<open>The like table as the specification describes it\<close>

text \<open>
  The definitions of this section are written from the words of the specification, not
  from the code, to be compared with \<^verbatim>\<open>likePost\<close> and \<^verbatim>\<open>unlikePost\<close>: a like ensures
  that a join record exists, an unlike that none exists, and either one then recomputes
  the \<^verbatim>\<open>likes\<close> count of the stats from the count of the join table and persists it.
  \<open>spec_like\<close> adds the row of the pair unless the table has one, \<open>spec_unlike\<close> is the
  table without the rows of the pair, \<open>spec_recount\<close> is the store with the given like
  table and the number of its rows for the post written to the stats of that post, every
  other stats row and every other table as they were, and \<open>spec_likes_after\<close> is the
  like table after a sequence of likes and unlikes of one post.
\<close>

definition spec_like :: "string \<Rightarrow> string \<Rightarrow> postLike list \<Rightarrow> postLike list" where
  "spec_like p u ls =
     (if find (\<lambda>l. postId_pl l = p \<and> userId_pl l = u) ls = None
      then ls @ [\<lparr>postId_pl = p, userId_pl = u\<rparr>] else ls)"

definition spec_unlike :: "string \<Rightarrow> string \<Rightarrow> postLike list \<Rightarrow> postLike list" where
  "spec_unlike p u ls = filter (\<lambda>l. \<not> (postId_pl l = p \<and> userId_pl l = u)) ls"

definition spec_recount :: "string \<Rightarrow> postLike list \<Rightarrow> db \<Rightarrow> db" where
  "spec_recount p ls s =
     s\<lparr>postLike_tbl := ls,
       postStats_tbl :=
         map (\<lambda>x. if postId_s x = p
                  then x\<lparr>likes_s := int (length (filter (\<lambda>l. postId_pl l = p) ls))\<rparr> else x)
           (postStats_tbl s)\<rparr>"

fun spec_likes_after :: "string \<Rightarrow> likeOp list \<Rightarrow> postLike list \<Rightarrow> postLike list" where
  "spec_likes_after p [] ls = ls"
| "spec_likes_after p (Like u # ops) ls = spec_likes_after p ops (spec_like p u ls)"
| "spec_likes_after p (Unlike u # ops) ls = spec_likes_after p ops (spec_unlike p u ls)"

section \<open>Auxiliary facts\<close>

lemmas rec_defs = comment.defs comment_user.defs comment_liked.defs comment_shown.defs comment_grouped.defs

lemmas ex_defs = exA_def exB_def exB1_def exC_def exB2_def exDb_def

lemmas exR_defs = exDbR_def ex_defs

lemmas spec_defs = spec_like_def spec_unlike_def spec_recount_def

lemmas eval_defs = findComments_def comment_findMany_def comment_with_user_def include_user_def
  getCommentLikeMap_def mergeCommentLikeMap_def hideDeletedComments_def hideDeletedComment_def
  truthy_def js_truthy_def js_get_def js_set_def js_empty_def commentLike_columns_def
  objectPrototypeKeys_def

lemmas run_defs = createComment_def comment_create_def comment_update_def
  updatePostCommentsCount_def postStats_update_def count_where_def truthy_def findComment_def

lemmas post_defs = post.defs post_incl.defs post_liked.defs

subsection \<open>Lists as tables\<close>

lemma find_key_distinct:
  "distinct (map k xs) \<Longrightarrow> x \<in> set xs \<Longrightarrow> find (\<lambda>y. k y = k x) xs = Some x"
  by (induction xs) (auto simp: rev_image_eqI)

lemma find_SomeD: "find P xs = Some x \<Longrightarrow> P x \<and> x \<in> set xs"
  by (auto simp: find_Some_iff)

lemma find_append:
  "find P (xs @ ys) = (case find P xs of None \<Rightarrow> find P ys | Some x \<Rightarrow> Some x)"
  by (induction xs) auto

lemma update_first_None: "(update_first P f xs = None) = (find P xs = None)"
  by (induction xs) auto

lemma update_first_distinct:
  "distinct (map k xs) \<Longrightarrow> update_first (\<lambda>y. k y = a) f xs = Some ys \<Longrightarrow>
   ys = map (\<lambda>y. if k y = a then f y else y) xs"
proof (induction xs arbitrary: ys)
  case Nil
  then show ?case by simp
next
  case (Cons x xs)
  show ?case
  proof (cases "k x = a")
    case True
    with Cons.prems have "ys = f x # xs" and "\<forall>y\<in>set xs. k y \<noteq> a" by (auto simp: image_iff)
    then show ?thesis using True by (simp add: map_idI)
  next
    case False
    with Cons.prems obtain zs where "update_first (\<lambda>y. k y = a) f xs = Some zs" "ys = x # zs"
      by auto
    with Cons.IH Cons.prems False show ?thesis by simp
  qed
qed

lemma find_update_first:
  "find P xs = Some r \<Longrightarrow> P (f r) \<Longrightarrow> update_first P f xs = Some ys \<Longrightarrow> find P ys = Some (f r)"
  by (induction xs arbitrary: ys) (auto split: if_splits)

lemma update_first_keeps:
  "update_first P f xs = Some ys \<Longrightarrow> x \<in> set xs \<Longrightarrow> \<not> P x \<Longrightarrow> x \<in> set ys"
  by (induction xs arbitrary: ys) (auto split: if_splits)

lemma update_first_Some:
  "x \<in> set xs \<Longrightarrow> P x \<Longrightarrow> \<exists>ys. update_first P f xs = Some ys"
  using update_first_None [of P f xs] by (cases "update_first P f xs") (auto simp: find_None_iff)

lemma update_first_idem:
  "update_first P f xs = Some ys \<Longrightarrow> (\<And>x. f (f x) = f x) \<Longrightarrow> (\<And>x. P x \<Longrightarrow> P (f x)) \<Longrightarrow>
   update_first P f ys = Some ys"
  by (induction xs arbitrary: ys) (auto split: if_splits)

lemma delete_first_None: "(delete_first P xs = None) = (find P xs = None)"
  by (induction xs) auto

lemma filter_key_distinct:
  "distinct (map k xs) \<Longrightarrow> x \<in> set xs \<Longrightarrow> filter (\<lambda>y. k y = k x) xs = [x]"
proof (induction xs)
  case Nil
  then show ?case by simp
next
  case (Cons y ys)
  show ?case
  proof (cases "x = y")
    case True
    with Cons.prems have "\<forall>z\<in>set ys. k z \<noteq> k x" by (auto simp: image_iff)
    then have "filter (\<lambda>y. k y = k x) ys = []" by (simp add: filter_empty_conv)
    with True show ?thesis by simp
  next
    case False
    with Cons.prems have "x \<in> set ys" "k y \<noteq> k x" by (auto simp: image_iff)
    with Cons.IH Cons.prems show ?thesis by simp
  qed
qed

subsection \<open>Comments\<close>

lemma findComment_live:
  assumes "distinct (map id_c (comment_tbl s))" "c \<in> set (comment_tbl s)" "deletedAt c = None"
  shows "findComment s (id_c c) = Inr (comment_with_user s c)"
  using find_key_distinct [OF assms(1,2)] assms(3) by (simp add: findComment_def)

lemma findComment_absent:
  "\<forall>c\<in>set (comment_tbl s). id_c c \<noteq> commentId \<Longrightarrow> findComment s commentId = Inl NotFound"
proof -
  assume "\<forall>c\<in>set (comment_tbl s). id_c c \<noteq> commentId"
  then have "find (\<lambda>c. id_c c = commentId) (comment_tbl s) = None"
    by (simp add: find_None_iff)
  then show ?thesis by (simp add: findComment_def)
qed

lemma findComment_deleted:
  assumes "distinct (map id_c (comment_tbl s))" "c \<in> set (comment_tbl s)" "deletedAt c \<noteq> None"
  shows "findComment s (id_c c) = Inl NotFound"
  using find_key_distinct [OF assms(1,2)] assms(3) by (simp add: findComment_def)

lemma userId_comment_with_user: "userId_c (comment_with_user s c) = userId_c c"
  by (simp add: comment_with_user_def rec_defs)

lemma id_comment_with_user: "id_c (comment_with_user s c) = id_c c"
  by (simp add: comment_with_user_def rec_defs)

lemma level_comment_with_user: "level (comment_with_user s c) = level c"
  by (simp add: comment_with_user_def rec_defs)

lemma postStats_update_ok:
  assumes "find (\<lambda>r. postId_s r = postId) (postStats_tbl s) = Some r"
    and "postId_s (f r) = postId"
  shows "\<exists>rs. postStats_update postId f s = (Inr (f r), s\<lparr>postStats_tbl := rs\<rparr>) \<and>
              find (\<lambda>r. postId_s r = postId) rs = Some (f r)"
proof -
  let ?P = "\<lambda>r. postId_s r = postId"
  from assms(1) obtain rs where rs: "update_first ?P f (postStats_tbl s) = Some rs"
    using update_first_None [of ?P f "postStats_tbl s"]
    by (cases "update_first ?P f (postStats_tbl s)") auto
  have "find ?P rs = Some (f r)"
    by (rule find_update_first [OF assms(1) assms(2) rs])
  with rs assms(1) show ?thesis by (auto simp: postStats_update_def)
qed

lemma postStats_update_fail:
  "find (\<lambda>r. postId_s r = postId) (postStats_tbl s) = None \<Longrightarrow>
   postStats_update postId f s = (Inl RecordNotFound, s)"
  by (simp add: postStats_update_def)

lemma updatePostCommentsCount_ok:
  assumes "find (\<lambda>r. postId_s r = postId) (postStats_tbl s) = Some r"
  shows "\<exists>rs. updatePostCommentsCount postId s =
               (Inr (count_where (\<lambda>c. postId_c c = postId) (comment_tbl s)),
                s\<lparr>postStats_tbl := rs\<rparr>) \<and>
              find (\<lambda>r. postId_s r = postId) rs =
                Some (r\<lparr>commentsCount := count_where (\<lambda>c. postId_c c = postId) (comment_tbl s)\<rparr>)"
proof -
  let ?n = "count_where (\<lambda>c. postId_c c = postId) (comment_tbl s)"
  have "postId_s (r\<lparr>commentsCount := ?n\<rparr>) = postId"
    using find_SomeD [OF assms] by simp
  from postStats_update_ok [OF assms, of "\<lambda>r. r\<lparr>commentsCount := ?n\<rparr>", OF this]
  obtain rs where "postStats_update postId (\<lambda>r. r\<lparr>commentsCount := ?n\<rparr>) s =
       (Inr (r\<lparr>commentsCount := ?n\<rparr>), s\<lparr>postStats_tbl := rs\<rparr>)"
     and "find (\<lambda>r. postId_s r = postId) rs = Some (r\<lparr>commentsCount := ?n\<rparr>)"
    by blast
  then show ?thesis by (intro exI [of _ rs]) (simp add: updatePostCommentsCount_def)
qed

lemma updatePostCommentsCount_Inr:
  assumes "updatePostCommentsCount postId s = (Inr n, s')"
  shows "comment_tbl s' = comment_tbl s \<and>
         (\<exists>r. find (\<lambda>r. postId_s r = postId) (postStats_tbl s') = Some r \<and>
              commentsCount r = count_where (\<lambda>c. postId_c c = postId) (comment_tbl s))"
proof (cases "find (\<lambda>r. postId_s r = postId) (postStats_tbl s)")
  case None
  with assms show ?thesis
    by (simp add: updatePostCommentsCount_def postStats_update_fail)
next
  case (Some r)
  from updatePostCommentsCount_ok [OF Some] assms show ?thesis by auto
qed

lemma createComment_Inr:
  assumes "createComment newId now userId dto s = (Inr c, s')"
  shows "\<exists>s2 n. updatePostCommentsCount (postId_dto dto) s2 = (Inr n, s')"
proof -
  obtain parentComment where pc:
    "(case truthy (parentCommentId_dto dto) of None \<Rightarrow> Inr None
      | Some pid \<Rightarrow> map_sum (\<lambda>e. e) Some (findComment s pid)) = Inr parentComment"
    using assms by (cases "(case truthy (parentCommentId_dto dto) of None \<Rightarrow> Inr None
      | Some pid \<Rightarrow> map_sum (\<lambda>e. e) Some (findComment s pid))") (auto simp: createComment_def)
  show ?thesis
    using assms unfolding createComment_def pc
    by (simp add: Let_def split: if_splits prod.splits sum.splits) blast
qed

lemma truthy_Some: "pid \<noteq> '''' \<Longrightarrow> truthy (Some pid) = Some pid"
  by (simp add: truthy_def)

lemma comment_create_fresh:
  "\<forall>x\<in>set (comment_tbl s). id_c x \<noteq> id_c c \<Longrightarrow>
   comment_create c s = (Inr c, s\<lparr>comment_tbl := comment_tbl s @ [c]\<rparr>)"
proof -
  assume "\<forall>x\<in>set (comment_tbl s). id_c x \<noteq> id_c c"
  then have "find (\<lambda>r. id_c r = id_c c) (comment_tbl s) = None"
    by (simp add: find_None_iff)
  then show ?thesis by (simp add: comment_create_def)
qed

lemma comment_update_ok:
  assumes "x \<in> set (comment_tbl s)" "id_c x = commentId"
  shows "\<exists>cs. comment_update commentId f s = (Inr (), s\<lparr>comment_tbl := cs\<rparr>) \<and>
              (\<forall>y\<in>set (comment_tbl s). id_c y \<noteq> commentId \<longrightarrow> y \<in> set cs)"
proof -
  obtain cs where cs: "update_first (\<lambda>c. id_c c = commentId) f (comment_tbl s) = Some cs"
    using update_first_Some [of x "comment_tbl s" "\<lambda>c. id_c c = commentId" f] assms by blast
  have "\<forall>y\<in>set (comment_tbl s). id_c y \<noteq> commentId \<longrightarrow> y \<in> set cs"
    using update_first_keeps [OF cs] by blast
  with cs show ?thesis by (intro exI [of _ cs]) (simp add: comment_update_def)
qed

lemma foldl_bucket:
  "bucket_of (foldl bucket m cs k) =
     bucket_of (m k) @ filter (\<lambda>c. parentCommentId c = Some k \<and> k \<noteq> '''') cs"
proof (induction cs arbitrary: m)
  case Nil
  then show ?case by simp
next
  case (Cons c cs)
  have "bucket_of (bucket m c k) =
          bucket_of (m k) @ (if parentCommentId c = Some k \<and> k \<noteq> '''' then [c] else [])"
    by (cases "parentCommentId c") (auto simp: bucket_def)
  with Cons.IH [of "bucket m c"] show ?case by simp
qed

lemma groupSubComments_filter:
  "groupSubComments cs =
     map (\<lambda>r. comment_shown.extend r
                 (comment_grouped.fields
                    (filter (\<lambda>c. parentCommentId c = Some (id_c r) \<and> id_c r \<noteq> '''') cs)))
       (filter (\<lambda>c. parentCommentId c = None) cs)"
  using foldl_bucket [of Map.empty cs] by (simp add: groupSubComments_def)

lemma findComments_Some:
  assumes "find (\<lambda>p. slug p = sl) (post_tbl s) = Some post"
  shows "findComments s sl viewer =
           Inr (groupSubComments
                  (map (shown_comment
                          (map_option (getCommentLikeMap s (map id_c (comment_findMany s (id_p post))))
                             (truthy viewer)))
                     (comment_findMany s (id_p post))))"
  by (cases "truthy viewer")
    (simp_all add: findComments_def assms Let_def hideDeletedComments_def
      shown_comment_def [abs_def] comp_def)

lemma findComments_None:
  "find (\<lambda>p. slug p = sl) (post_tbl s) = None \<Longrightarrow> findComments s sl viewer = Inl NotFound"
  by (simp add: findComments_def)

lemma shown_comment_kept:
  "id_c (shown_comment m (comment_with_user s c)) = id_c c"
  "parentCommentId (shown_comment m (comment_with_user s c)) = parentCommentId c"
  "level (shown_comment m (comment_with_user s c)) = level c"
  "deletedAt (shown_comment m (comment_with_user s c)) = deletedAt c"
  "postId_c (shown_comment m (comment_with_user s c)) = postId_c c"
  "subCommentsCount (shown_comment m (comment_with_user s c)) = subCommentsCount c"
  by (simp_all add: shown_comment_def hideDeletedComment_def mergeCommentLikeMap_def
      comment_with_user_def rec_defs)

lemma shown_comment_deleted:
  assumes "deletedAt c \<noteq> None"
  shows "text_c (shown_comment m (comment_with_user s c)) = ''''"
    "likes_c (shown_comment m (comment_with_user s c)) = 0"
    "userId_c (shown_comment m (comment_with_user s c)) = None"
    "user_c (shown_comment m (comment_with_user s c)) = \<lparr>id_a = None, username_a = None\<rparr>"
    "createdAt_c (shown_comment m (comment_with_user s c)) = 0"
    "updatedAt_c (shown_comment m (comment_with_user s c)) = 0"
    "isDeleted (shown_comment m (comment_with_user s c))"
  using assms
  by (auto simp: shown_comment_def hideDeletedComment_def mergeCommentLikeMap_def
      comment_with_user_def rec_defs)

lemma shown_comment_live:
  assumes "deletedAt c = None"
  shows "comment.truncate (shown_comment m (comment_with_user s c)) = c"
    "user_c (shown_comment m (comment_with_user s c)) = include_user s (userId_c c)"
    "\<not> isDeleted (shown_comment m (comment_with_user s c))"
  using assms
  by (simp_all add: shown_comment_def hideDeletedComment_def mergeCommentLikeMap_def
      comment_with_user_def rec_defs)

lemma set_comment_findMany:
  "set (comment_findMany s pid) =
     comment_with_user s ` {c \<in> set (comment_tbl s). postId_c c = pid}"
  by (auto simp: comment_findMany_def)

lemma grouped_fields:
  fixes v :: comment_shown and subs :: "comment_shown list"
  defines "g \<equiv> comment_shown.extend v (comment_grouped.fields subs)"
  shows "id_c g = id_c v" "text_c g = text_c v" "userId_c g = userId_c v"
    "postId_c g = postId_c v" "parentCommentId g = parentCommentId v" "level g = level v"
    "likes_c g = likes_c v" "subCommentsCount g = subCommentsCount v"
    "deletedAt g = deletedAt v" "createdAt_c g = createdAt_c v" "updatedAt_c g = updatedAt_c v"
    "user_c g = user_c v" "isLiked_c g = isLiked_c v" "isDeleted g = isDeleted v"
    "subComments g = subs" "comment_shown.truncate g = v" "comment.truncate g = comment.truncate v"
  by (simp_all add: g_def rec_defs)

lemma findComments_top:
  assumes "findComments s sl viewer = Inr gs" and "g \<in> set gs"
  shows "\<exists>m. \<exists>c\<in>set (comment_tbl s).
           parentCommentId c = None \<and>
           comment_shown.truncate g = shown_comment m (comment_with_user s c)"
proof (cases "find (\<lambda>p. slug p = sl) (post_tbl s)")
  case None
  with assms show ?thesis by (simp add: findComments_None)
next
  case (Some post)
  define m where "m = map_option (getCommentLikeMap s (map id_c (comment_findMany s (id_p post))))
                             (truthy viewer)"
  define cs where "cs = map (shown_comment m) (comment_findMany s (id_p post))"
  from findComments_Some [OF Some, of viewer] assms(1)
  have gs: "gs = groupSubComments cs"
    by (simp add: m_def cs_def)
  from assms(2) obtain v where v: "v \<in> set cs"
      "parentCommentId v = None" and g: "comment_shown.truncate g = v"
    unfolding gs groupSubComments_filter by (auto simp: grouped_fields)
  from v(1) obtain c where c: "c \<in> set (comment_tbl s)" "v = shown_comment m (comment_with_user s c)"
    by (auto simp: cs_def set_comment_findMany)
  with v(2) have "parentCommentId c = None" by (simp add: shown_comment_kept)
  with c g show ?thesis by blast
qed

lemma findComments_sub:
  assumes "findComments s sl viewer = Inr gs" and "g \<in> set gs" and "x \<in> set (subComments g)"
  shows "\<exists>m. \<exists>c\<in>set (comment_tbl s).
           parentCommentId c = Some (id_c g) \<and> x = shown_comment m (comment_with_user s c)"
proof (cases "find (\<lambda>p. slug p = sl) (post_tbl s)")
  case None
  with assms show ?thesis by (simp add: findComments_None)
next
  case (Some post)
  define m where "m = map_option (getCommentLikeMap s (map id_c (comment_findMany s (id_p post))))
                             (truthy viewer)"
  define cs where "cs = map (shown_comment m) (comment_findMany s (id_p post))"
  from findComments_Some [OF Some, of viewer] assms(1)
  have gs: "gs = groupSubComments cs"
    by (simp add: m_def cs_def)
  from assms(2,3) have x: "x \<in> set cs" "parentCommentId x = Some (id_c g)"
    unfolding gs groupSubComments_filter by (auto simp: grouped_fields)
  from x(1) obtain c where c: "c \<in> set (comment_tbl s)" "x = shown_comment m (comment_with_user s c)"
    by (auto simp: cs_def set_comment_findMany)
  with x(2) have "parentCommentId c = Some (id_c g)" by (simp add: shown_comment_kept)
  with c show ?thesis by blast
qed

lemma listed_root:
  assumes "find (\<lambda>p. slug p = sl) (post_tbl s) = Some post"
    and "c \<in> set (comment_tbl s)" and "postId_c c = id_p post" and "parentCommentId c = None"
  shows "\<exists>m gs. findComments s sl viewer = Inr gs \<and>
           (\<exists>g\<in>set gs. comment_shown.truncate g = shown_comment m (comment_with_user s c))"
proof -
  define m where "m = map_option (getCommentLikeMap s (map id_c (comment_findMany s (id_p post))))
                             (truthy viewer)"
  define cs where "cs = map (shown_comment m) (comment_findMany s (id_p post))"
  have run: "findComments s sl viewer = Inr (groupSubComments cs)"
    using findComments_Some [OF assms(1), of viewer] by (simp add: m_def cs_def)
  define v where "v = shown_comment m (comment_with_user s c)"
  have v: "v \<in> set cs" "parentCommentId v = None"
    using assms(2,3,4) by (auto simp: cs_def v_def set_comment_findMany shown_comment_kept)
  define g where "g = comment_shown.extend v
       (comment_grouped.fields (filter (\<lambda>c. parentCommentId c = Some (id_c v) \<and> id_c v \<noteq> '''') cs))"
  have "g \<in> set (groupSubComments cs)"
    unfolding groupSubComments_filter g_def using v by simp
  moreover have "comment_shown.truncate g = v"
    by (simp add: g_def grouped_fields)
  ultimately show ?thesis using run unfolding v_def by blast
qed

lemma listed_reply:
  assumes "find (\<lambda>p. slug p = sl) (post_tbl s) = Some post"
    and "c \<in> set (comment_tbl s)" and "postId_c c = id_p post"
    and "r \<in> set (comment_tbl s)" and "postId_c r = id_p post" and "parentCommentId r = None"
    and "parentCommentId c = Some (id_c r)" and "id_c r \<noteq> ''''"
  shows "\<exists>m gs. findComments s sl viewer = Inr gs \<and>
           (\<exists>g\<in>set gs. comment_shown.truncate g = shown_comment m (comment_with_user s r) \<and>
                shown_comment m (comment_with_user s c) \<in> set (subComments g))"
proof -
  define m where "m = map_option (getCommentLikeMap s (map id_c (comment_findMany s (id_p post))))
                             (truthy viewer)"
  define cs where "cs = map (shown_comment m) (comment_findMany s (id_p post))"
  have run: "findComments s sl viewer = Inr (groupSubComments cs)"
    using findComments_Some [OF assms(1), of viewer] by (simp add: m_def cs_def)
  define v where "v = shown_comment m (comment_with_user s r)"
  define x where "x = shown_comment m (comment_with_user s c)"
  have v: "v \<in> set cs" "parentCommentId v = None" "id_c v = id_c r"
    using assms(4,5,6) by (auto simp: cs_def v_def set_comment_findMany shown_comment_kept)
  have x: "x \<in> set cs" "parentCommentId x = Some (id_c r)"
    using assms(2,3,7) by (auto simp: cs_def x_def set_comment_findMany shown_comment_kept)
  define g where "g = comment_shown.extend v
       (comment_grouped.fields (filter (\<lambda>c. parentCommentId c = Some (id_c v) \<and> id_c v \<noteq> '''') cs))"
  have "g \<in> set (groupSubComments cs)"
    unfolding groupSubComments_filter g_def using v(1,2) by simp
  moreover have "comment_shown.truncate g = v"
    by (simp add: g_def grouped_fields)
  moreover have "x \<in> set (subComments g)"
    using x v(3) assms(8) by (simp add: g_def grouped_fields)
  ultimately show ?thesis using run unfolding v_def x_def by blast
qed

lemma shown_comment_rendering:
  fixes c :: comment and s :: db and m :: "commentLike js_object option"
  defines "x \<equiv> shown_comment m (comment_with_user s c)"
  shows "(deletedAt x \<noteq> None \<longrightarrow>
            text_c x = '''' \<and> likes_c x = 0 \<and>
            user_c x = \<lparr>id_a = None, username_a = None\<rparr> \<and>
            createdAt_c x = 0 \<and> updatedAt_c x = 0 \<and> isDeleted x) \<and>
         (deletedAt x = None \<longrightarrow> \<not> isDeleted x) \<and>
         id_c x = id_c c \<and> parentCommentId x = parentCommentId c \<and> level x = level c \<and>
         deletedAt x = deletedAt c \<and> (deletedAt c = None \<longrightarrow> comment.truncate x = c)"
  unfolding x_def
  using shown_comment_deleted [of c m s] shown_comment_live [of c m s]
  by (simp add: shown_comment_kept)

lemma truncate_fields:
  fixes g :: comment_grouped
  shows "id_c (comment_shown.truncate g) = id_c g"
    "text_c (comment_shown.truncate g) = text_c g"
    "parentCommentId (comment_shown.truncate g) = parentCommentId g"
    "level (comment_shown.truncate g) = level g"
    "likes_c (comment_shown.truncate g) = likes_c g"
    "deletedAt (comment_shown.truncate g) = deletedAt g"
    "createdAt_c (comment_shown.truncate g) = createdAt_c g"
    "updatedAt_c (comment_shown.truncate g) = updatedAt_c g"
    "user_c (comment_shown.truncate g) = user_c g"
    "isDeleted (comment_shown.truncate g) = isDeleted g"
    "comment.truncate (comment_shown.truncate g) = comment.truncate g"
  by (simp_all add: rec_defs)

subsection \<open>Posts and likes\<close>

lemma dropWhile_key_distinct:
  "distinct (map k xs) \<Longrightarrow> j < length xs \<Longrightarrow> dropWhile (\<lambda>p. k p \<noteq> k (xs ! j)) xs = drop j xs"
proof (induction xs arbitrary: j)
  case Nil
  then show ?case by simp
next
  case (Cons x xs)
  show ?case
  proof (cases j)
    case 0
    then show ?thesis by simp
  next
    case (Suc i)
    with Cons.prems have "i < length xs" "k x \<noteq> k (xs ! i)" by (auto simp: image_iff)
    with Cons.IH [of i] Cons.prems(1) Suc show ?thesis by simp
  qed
qed

lemma findPostsByQuries_ids:
  "map id_p (fst (findPostsByQuries s cursor userId)) =
     map id_p (take 20 (drop 1 (start_at s (truthy cursor))))"
  unfolding start_at_def newest_first_def
  by (simp add: findPostsByQuries_def post_findMany_def Let_def
      mergePostLiked_def post_with_includes_def post_defs comp_def split: option.split)

lemma findPostsByQuries_next:
  "snd (findPostsByQuries s cursor userId) =
     nth_opt (map id_p (take 20 (drop 1 (start_at s (truthy cursor))))) 19"
  unfolding start_at_def newest_first_def
  by (simp add: findPostsByQuries_def post_findMany_def Let_def nth_opt_def
      mergePostLiked_def post_with_includes_def post_defs split: option.split)

lemma start_at_pos:
  assumes "distinct (map id_p (newest_first s))" and "j < length (newest_first s)"
    and "id_p (newest_first s ! j) \<noteq> []"
  shows "start_at s (truthy (Some (id_p (newest_first s ! j)))) = drop j (newest_first s)"
  using dropWhile_key_distinct [OF assms(1,2)] assms(3) by (simp add: start_at_def truthy_def)

lemma start_at_None: "start_at s (truthy None) = drop 0 (newest_first s)"
  by (simp add: start_at_def truthy_def)

lemma listAll_from:
  assumes "distinct (map id_p (newest_first s))"
    and "\<forall>p\<in>set (newest_first s). id_p p \<noteq> []"
  shows "start_at s (truthy cursor) = drop j (newest_first s) \<Longrightarrow>
         length (newest_first s) < j + 1 + 20 * fuel \<Longrightarrow>
         map id_p (listAll fuel s cursor userId) = map id_p (drop (j + 1) (newest_first s))"
proof (induction fuel arbitrary: j cursor)
  case 0
  then show ?case by simp
next
  case (Suc fuel)
  let ?xs = "newest_first s"
  let ?page = "map id_p (take 20 (drop 1 (start_at s (truthy cursor))))"
  have page: "?page = map id_p (take 20 (drop (j + 1) ?xs))"
    by (simp add: Suc.prems(1))
  obtain posts nc where run: "findPostsByQuries s cursor userId = (posts, nc)"
    by (cases "findPostsByQuries s cursor userId")
  from findPostsByQuries_ids [of s cursor userId] run page
  have posts: "map id_p posts = map id_p (take 20 (drop (j + 1) ?xs))" by simp
  from findPostsByQuries_next [of s cursor userId] run page
  have nc: "nc = nth_opt (map id_p (take 20 (drop (j + 1) ?xs))) 19" by simp
  show ?case
  proof (cases "j + 21 \<le> length ?xs")
    case True
    then have nc': "nc = Some (id_p (?xs ! (j + 20)))"
      by (simp add: nc nth_opt_def add.commute)
    have pos: "j + 20 < length ?xs" using True by simp
    then have "id_p (?xs ! (j + 20)) \<noteq> []" using assms(2) by simp
    from start_at_pos [OF assms(1) pos this]
    have rest: "map id_p (listAll fuel s (Some (id_p (?xs ! (j + 20)))) userId) =
            map id_p (drop (j + 20 + 1) ?xs)"
      by (rule Suc.IH) (use Suc.prems(2) in simp)
    have glue: "take 20 (drop (j + 1) ?xs) @ drop (j + 20 + 1) ?xs = drop (j + 1) ?xs"
      using append_take_drop_id [of 20 "drop (j + 1) ?xs"] by (simp add: add.commute)
    have "map id_p (listAll (Suc fuel) s cursor userId) =
            map id_p posts @ map id_p (listAll fuel s (Some (id_p (?xs ! (j + 20)))) userId)"
      using run nc' by simp
    also have "\<dots> = map id_p (take 20 (drop (j + 1) ?xs) @ drop (j + 20 + 1) ?xs)"
      unfolding posts rest by simp
    also have "\<dots> = map id_p (drop (j + 1) ?xs)"
      unfolding glue ..
    finally show ?thesis .
  next
    case False
    then have "nc = None" by (simp add: nc nth_opt_def)
    moreover have "take 20 (drop (j + 1) ?xs) = drop (j + 1) ?xs"
      using False by simp
    ultimately show ?thesis using run posts by simp
  qed
qed

lemma updatePostLikes_ok:
  assumes "find (\<lambda>r. postId_s r = postId) (postStats_tbl s) = Some r"
  shows "\<exists>rs. updatePostLikes postId s =
               (Inr (r\<lparr>likes_s := count_where (\<lambda>l. postId_pl l = postId) (postLike_tbl s)\<rparr>),
                s\<lparr>postStats_tbl := rs\<rparr>) \<and>
              find (\<lambda>r. postId_s r = postId) rs =
                Some (r\<lparr>likes_s := count_where (\<lambda>l. postId_pl l = postId) (postLike_tbl s)\<rparr>) \<and>
              update_first (\<lambda>r. postId_s r = postId)
                (\<lambda>r. r\<lparr>likes_s := count_where (\<lambda>l. postId_pl l = postId) (postLike_tbl s)\<rparr>) rs = Some rs \<and>
              update_first (\<lambda>r. postId_s r = postId)
                (\<lambda>r. r\<lparr>likes_s := count_where (\<lambda>l. postId_pl l = postId) (postLike_tbl s)\<rparr>)
                (postStats_tbl s) = Some rs"
proof -
  let ?n = "count_where (\<lambda>l. postId_pl l = postId) (postLike_tbl s)"
  let ?P = "\<lambda>r. postId_s r = postId"
  let ?f = "\<lambda>r::postStats. r\<lparr>likes_s := ?n\<rparr>"
  obtain rs where rs: "update_first ?P ?f (postStats_tbl s) = Some rs"
    using assms update_first_None [of ?P ?f "postStats_tbl s"]
    by (cases "update_first ?P ?f (postStats_tbl s)") auto
  have "postId_s (?f r) = postId" using find_SomeD [OF assms] by simp
  then have "find ?P rs = Some (?f r)"
    by (rule find_update_first [OF assms _ rs])
  moreover have "update_first ?P ?f rs = Some rs"
    by (rule update_first_idem [OF rs]) simp_all
  ultimately show ?thesis
    using rs assms by (intro exI [of _ rs]) (simp add: updatePostLikes_def postStats_update_def)
qed

lemma likePost_run:
  fixes s :: db and p u :: string
  assumes "find (\<lambda>r. postId_s r = p) (postStats_tbl s) = Some r"
  defines "ls \<equiv> (if find (\<lambda>x. postId_pl x = p \<and> userId_pl x = u) (postLike_tbl s) = None
                  then postLike_tbl s @ [\<lparr>postId_pl = p, userId_pl = u\<rparr>] else postLike_tbl s)"
  shows "\<exists>rs. likePost u p s =
               (Inr (r\<lparr>likes_s := count_where (\<lambda>l. postId_pl l = p) ls\<rparr>),
                s\<lparr>postLike_tbl := ls, postStats_tbl := rs\<rparr>) \<and>
              find (\<lambda>r. postId_s r = p) rs = Some (r\<lparr>likes_s := count_where (\<lambda>l. postId_pl l = p) ls\<rparr>) \<and>
              update_first (\<lambda>r. postId_s r = p)
                (\<lambda>r. r\<lparr>likes_s := count_where (\<lambda>l. postId_pl l = p) ls\<rparr>)
                (postStats_tbl s) = Some rs"
proof -
  define s1 where "s1 = s\<lparr>postLike_tbl := ls\<rparr>"
  have st: "find (\<lambda>r. postId_s r = p) (postStats_tbl s1) = Some r"
    using assms(1) by (simp add: s1_def)
  have pre: "(if find (\<lambda>x. postId_pl x = p \<and> userId_pl x = u) (postLike_tbl s) = None
               then postLike_create \<lparr>postId_pl = p, userId_pl = u\<rparr> s
               else (Inr (), s)) = (Inr (), s1)"
    by (simp add: postLike_create_def s1_def ls_def)
  from updatePostLikes_ok [OF st] obtain rs where
    "updatePostLikes p s1 =
       (Inr (r\<lparr>likes_s := count_where (\<lambda>l. postId_pl l = p) ls\<rparr>), s1\<lparr>postStats_tbl := rs\<rparr>)"
    "find (\<lambda>r. postId_s r = p) rs = Some (r\<lparr>likes_s := count_where (\<lambda>l. postId_pl l = p) ls\<rparr>)"
    "update_first (\<lambda>r. postId_s r = p)
       (\<lambda>r. r\<lparr>likes_s := count_where (\<lambda>l. postId_pl l = p) ls\<rparr>) (postStats_tbl s) = Some rs"
    by (auto simp: s1_def)
  moreover have "likePost u p s = updatePostLikes p s1"
    unfolding likePost_def Let_def pre by simp
  ultimately show ?thesis
    by (intro exI [of _ rs]) (simp add: s1_def)
qed

lemma unlikePost_run:
  assumes "find (\<lambda>r. postId_s r = p) (postStats_tbl s) = Some r"
  shows "\<exists>ls rs. unlikePost u p s =
               (Inr (r\<lparr>likes_s := count_where (\<lambda>l. postId_pl l = p) ls\<rparr>),
                s\<lparr>postLike_tbl := ls, postStats_tbl := rs\<rparr>) \<and>
              find (\<lambda>r. postId_s r = p) rs = Some (r\<lparr>likes_s := count_where (\<lambda>l. postId_pl l = p) ls\<rparr>) \<and>
              update_first (\<lambda>r. postId_s r = p)
                (\<lambda>r. r\<lparr>likes_s := count_where (\<lambda>l. postId_pl l = p) ls\<rparr>)
                (postStats_tbl s) = Some rs \<and>
              (find (\<lambda>x. postId_pl x = p \<and> userId_pl x = u) (postLike_tbl s) = None \<longrightarrow> ls = postLike_tbl s) \<and>
              (find (\<lambda>x. postId_pl x = p \<and> userId_pl x = u) (postLike_tbl s) \<noteq> None \<longrightarrow>
                 delete_first (\<lambda>x. postId_pl x = p \<and> userId_pl x = u) (postLike_tbl s) = Some ls)"
proof -
  let ?P = "\<lambda>x. postId_pl x = p \<and> userId_pl x = u"
  obtain ls where ls: "(if find ?P (postLike_tbl s) \<noteq> None then postLike_delete p u s else (Inr (), s))
                   = (Inr (), s\<lparr>postLike_tbl := ls\<rparr>)"
      and ls1: "find ?P (postLike_tbl s) = None \<longrightarrow> ls = postLike_tbl s"
      and ls2: "find ?P (postLike_tbl s) \<noteq> None \<longrightarrow> delete_first ?P (postLike_tbl s) = Some ls"
  proof (cases "find ?P (postLike_tbl s)")
    case None
    then show ?thesis using that [of "postLike_tbl s"] by simp
  next
    case (Some l)
    then obtain ds where "delete_first ?P (postLike_tbl s) = Some ds"
      using delete_first_None [of ?P "postLike_tbl s"] by (cases "delete_first ?P (postLike_tbl s)") auto
    with Some show ?thesis using that [of ds] by (simp add: postLike_delete_def)
  qed
  define s1 where "s1 = s\<lparr>postLike_tbl := ls\<rparr>"
  have st: "find (\<lambda>r. postId_s r = p) (postStats_tbl s1) = Some r"
    using assms(1) by (simp add: s1_def)
  from updatePostLikes_ok [OF st] obtain rs where
    "updatePostLikes p s1 =
       (Inr (r\<lparr>likes_s := count_where (\<lambda>l. postId_pl l = p) ls\<rparr>), s1\<lparr>postStats_tbl := rs\<rparr>)"
    "find (\<lambda>r. postId_s r = p) rs = Some (r\<lparr>likes_s := count_where (\<lambda>l. postId_pl l = p) ls\<rparr>)"
    "update_first (\<lambda>r. postId_s r = p)
       (\<lambda>r. r\<lparr>likes_s := count_where (\<lambda>l. postId_pl l = p) ls\<rparr>) (postStats_tbl s) = Some rs"
    by (auto simp: s1_def)
  moreover have "unlikePost u p s = updatePostLikes p s1"
    unfolding unlikePost_def Let_def ls s1_def by simp
  ultimately show ?thesis using ls1 ls2
    by (intro exI [of _ ls] exI [of _ rs]) (simp add: s1_def)
qed

lemma delete_first_filter:
  "distinct (map k xs) \<Longrightarrow> delete_first (\<lambda>y. k y = a) xs = Some ys \<Longrightarrow>
   ys = filter (\<lambda>y. k y \<noteq> a) xs"
proof (induction xs arbitrary: ys)
  case Nil
  then show ?case by simp
next
  case (Cons x xs)
  show ?case
  proof (cases "k x = a")
    case True
    with Cons.prems have "ys = xs" "\<forall>y\<in>set xs. k y \<noteq> a" by (auto simp: image_iff)
    with True show ?thesis by simp
  next
    case False
    with Cons.prems obtain zs where "delete_first (\<lambda>y. k y = a) xs = Some zs" "ys = x # zs"
      by auto
    with Cons.IH Cons.prems False show ?thesis by simp
  qed
qed

lemma filter_absent: "find P xs = None \<Longrightarrow> filter (\<lambda>y. \<not> P y) xs = xs"
  by (simp add: find_None_iff filter_id_conv)

lemma find_map_key:
  "(\<And>x. P (f x) = P x) \<Longrightarrow> find P (map f xs) = map_option f (find P xs)"
  by (induction xs) auto

lemma spec_like_distinct:
  "distinct (map (\<lambda>l. (postId_pl l, userId_pl l)) ls) \<Longrightarrow>
   distinct (map (\<lambda>l. (postId_pl l, userId_pl l)) (spec_like p u ls))"
  by (auto simp: spec_like_def find_None_iff image_iff)

lemma spec_unlike_distinct:
  "distinct (map (\<lambda>l. (postId_pl l, userId_pl l)) ls) \<Longrightarrow>
   distinct (map (\<lambda>l. (postId_pl l, userId_pl l)) (spec_unlike p u ls))"
  by (simp add: spec_unlike_def distinct_map_filter)

lemma spec_recount_stats:
  assumes "find (\<lambda>r. postId_s r = p) (postStats_tbl s) = Some r"
  shows "find (\<lambda>r. postId_s r = p) (postStats_tbl (spec_recount p ls s)) =
           Some (r\<lparr>likes_s := int (length (filter (\<lambda>l. postId_pl l = p) ls))\<rparr>)"
    and "map postId_s (postStats_tbl (spec_recount p ls s)) = map postId_s (postStats_tbl s)"
    and "postLike_tbl (spec_recount p ls s) = ls"
    and "spec_recount p ls' (spec_recount p ls s) = spec_recount p ls' s"
proof -
  let ?f = "\<lambda>x. if postId_s x = p
                  then x\<lparr>likes_s := int (length (filter (\<lambda>l. postId_pl l = p) ls))\<rparr> else x"
  have "find (\<lambda>r. postId_s r = p) (map ?f (postStats_tbl s)) =
          map_option ?f (find (\<lambda>r. postId_s r = p) (postStats_tbl s))"
    by (rule find_map_key) simp
  with assms find_SomeD [OF assms]
  show "find (\<lambda>r. postId_s r = p) (postStats_tbl (spec_recount p ls s)) =
           Some (r\<lparr>likes_s := int (length (filter (\<lambda>l. postId_pl l = p) ls))\<rparr>)"
    by (simp add: spec_recount_def)
  show "map postId_s (postStats_tbl (spec_recount p ls s)) = map postId_s (postStats_tbl s)"
    by (simp add: spec_recount_def comp_def)
  show "postLike_tbl (spec_recount p ls s) = ls"
    by (simp add: spec_recount_def)
  show "spec_recount p ls' (spec_recount p ls s) = spec_recount p ls' s"
    by (simp add: spec_recount_def comp_def)
qed

lemma likePost_exact:
  assumes "find (\<lambda>r. postId_s r = p) (postStats_tbl s) = Some r"
    and "distinct (map postId_s (postStats_tbl s))"
  shows "likePost u p s =
           (Inr (r\<lparr>likes_s := int (length (filter (\<lambda>l. postId_pl l = p)
                                              (spec_like p u (postLike_tbl s))))\<rparr>),
            spec_recount p (spec_like p u (postLike_tbl s)) s)"
proof -
  from likePost_run [OF assms(1), of u, folded spec_like_def] obtain rs where
    run: "likePost u p s =
           (Inr (r\<lparr>likes_s := count_where (\<lambda>l. postId_pl l = p) (spec_like p u (postLike_tbl s))\<rparr>),
            s\<lparr>postLike_tbl := spec_like p u (postLike_tbl s), postStats_tbl := rs\<rparr>)"
    and "find (\<lambda>r. postId_s r = p) rs =
           Some (r\<lparr>likes_s := count_where (\<lambda>l. postId_pl l = p) (spec_like p u (postLike_tbl s))\<rparr>)"
    and up: "update_first (\<lambda>r. postId_s r = p)
              (\<lambda>r. r\<lparr>likes_s := count_where (\<lambda>l. postId_pl l = p) (spec_like p u (postLike_tbl s))\<rparr>)
              (postStats_tbl s) = Some rs"
    by (elim exE conjE) (rule that)
  from update_first_distinct [OF assms(2) up] run show ?thesis
    by (simp add: spec_recount_def count_where_def)
qed

lemma unlikePost_exact:
  assumes "find (\<lambda>r. postId_s r = p) (postStats_tbl s) = Some r"
    and "distinct (map postId_s (postStats_tbl s))"
    and "distinct (map (\<lambda>l. (postId_pl l, userId_pl l)) (postLike_tbl s))"
  shows "unlikePost u p s =
           (Inr (r\<lparr>likes_s := int (length (filter (\<lambda>l. postId_pl l = p)
                                              (spec_unlike p u (postLike_tbl s))))\<rparr>),
            spec_recount p (spec_unlike p u (postLike_tbl s)) s)"
proof -
  let ?Q = "\<lambda>x. postId_pl x = p \<and> userId_pl x = u"
  from unlikePost_run [OF assms(1), of u] obtain ls rs where
    run: "unlikePost u p s =
           (Inr (r\<lparr>likes_s := count_where (\<lambda>l. postId_pl l = p) ls\<rparr>),
            s\<lparr>postLike_tbl := ls, postStats_tbl := rs\<rparr>)"
    and "find (\<lambda>r. postId_s r = p) rs = Some (r\<lparr>likes_s := count_where (\<lambda>l. postId_pl l = p) ls\<rparr>)"
    and up: "update_first (\<lambda>r. postId_s r = p)
              (\<lambda>r. r\<lparr>likes_s := count_where (\<lambda>l. postId_pl l = p) ls\<rparr>)
              (postStats_tbl s) = Some rs"
    and keep: "find ?Q (postLike_tbl s) = None \<longrightarrow> ls = postLike_tbl s"
    and del: "find ?Q (postLike_tbl s) \<noteq> None \<longrightarrow> delete_first ?Q (postLike_tbl s) = Some ls"
    by (elim exE conjE) (rule that)
  have ls: "ls = spec_unlike p u (postLike_tbl s)"
  proof (cases "find ?Q (postLike_tbl s)")
    case None
    with keep filter_absent [OF None] show ?thesis by (simp add: spec_unlike_def)
  next
    case (Some l)
    with del have "delete_first (\<lambda>y. (postId_pl y, userId_pl y) = (p, u)) (postLike_tbl s) = Some ls"
      by simp
    from delete_first_filter [OF assms(3) this] show ?thesis
      by (simp add: spec_unlike_def)
  qed
  from update_first_distinct [OF assms(2) up] run show ?thesis
    by (simp add: spec_recount_def count_where_def ls)
qed

lemma spec_like_present:
  "find (\<lambda>l. postId_pl l = p \<and> userId_pl l = u) (spec_like p u ls) \<noteq> None"
proof (cases "find (\<lambda>l. postId_pl l = p \<and> userId_pl l = u) ls")
  case None
  then show ?thesis by (simp add: spec_like_def find_append)
next
  case (Some a)
  then show ?thesis by (simp add: spec_like_def)
qed

lemma spec_like_idem: "spec_like p u (spec_like p u ls) = spec_like p u ls"
  by (subst spec_like_def) (simp add: spec_like_present)

lemma spec_unlike_idem: "spec_unlike p u (spec_unlike p u ls) = spec_unlike p u ls"
  by (simp add: spec_unlike_def)

lemma spec_like_one:
  assumes "distinct (map (\<lambda>l. (postId_pl l, userId_pl l)) ls)"
  shows "length (filter (\<lambda>l. postId_pl l = p \<and> userId_pl l = u) (spec_like p u ls)) = 1"
proof -
  obtain l where l: "l \<in> set (spec_like p u ls)" "postId_pl l = p" "userId_pl l = u"
    using spec_like_present [of p u ls]
    by (cases "find (\<lambda>l. postId_pl l = p \<and> userId_pl l = u) (spec_like p u ls)")
      (auto dest: find_SomeD)
  have "filter (\<lambda>y. (postId_pl y, userId_pl y) = (postId_pl l, userId_pl l)) (spec_like p u ls) = [l]"
    by (rule filter_key_distinct [OF spec_like_distinct [OF assms] l(1)])
  then show ?thesis using l(2,3) by simp
qed

lemma spec_unlike_none:
  "length (filter (\<lambda>l. postId_pl l = p \<and> userId_pl l = u) (spec_unlike p u ls)) = 0"
  by (simp add: spec_unlike_def)

lemma spec_likes_after_distinct:
  "distinct (map (\<lambda>l. (postId_pl l, userId_pl l)) ls) \<Longrightarrow>
   distinct (map (\<lambda>l. (postId_pl l, userId_pl l)) (spec_likes_after p ops ls))"
  by (induction p ops ls rule: spec_likes_after.induct)
    (simp_all add: spec_like_distinct spec_unlike_distinct)

lemma applyLikeOp_exact:
  assumes "find (\<lambda>r. postId_s r = p) (postStats_tbl s) = Some r"
    and "distinct (map postId_s (postStats_tbl s))"
    and "distinct (map (\<lambda>l. (postId_pl l, userId_pl l)) (postLike_tbl s))"
  shows "\<exists>st. applyLikeOp p op s =
           (Inr st, spec_recount p (spec_likes_after p [op] (postLike_tbl s)) s)"
proof (cases op)
  case (Like u)
  with likePost_exact [OF assms(1,2), of u] show ?thesis by simp
next
  case (Unlike u)
  with unlikePost_exact [OF assms, of u] show ?thesis by simp
qed

lemma runLikeOps_exact:
  assumes "find (\<lambda>r. postId_s r = p) (postStats_tbl s) = Some r"
    and "distinct (map postId_s (postStats_tbl s))"
    and "distinct (map (\<lambda>l. (postId_pl l, userId_pl l)) (postLike_tbl s))"
    and "ops \<noteq> []"
  shows "runLikeOps p ops s =
           (Inr (), spec_recount p (spec_likes_after p ops (postLike_tbl s)) s)"
  using assms
proof (induction ops arbitrary: s r)
  case Nil
  then show ?case by simp
next
  case (Cons op ops)
  define ls where "ls = spec_likes_after p [op] (postLike_tbl s)"
  define s1 where "s1 = spec_recount p ls s"
  from applyLikeOp_exact [OF Cons.prems(1,2,3), of op] obtain st
    where step: "applyLikeOp p op s = (Inr st, s1)"
    unfolding s1_def ls_def by blast
  have after: "spec_likes_after p (op # ops) (postLike_tbl s) = spec_likes_after p ops ls"
    by (cases op) (simp_all add: ls_def)
  show ?case
  proof (cases "ops = []")
    case True
    with step show ?thesis by (simp add: s1_def ls_def)
  next
    case False
    have st1: "find (\<lambda>r. postId_s r = p) (postStats_tbl s1) =
                 Some (r\<lparr>likes_s := int (length (filter (\<lambda>l. postId_pl l = p) ls))\<rparr>)"
      unfolding s1_def by (rule spec_recount_stats(1) [OF Cons.prems(1)])
    have ds1: "distinct (map postId_s (postStats_tbl s1))"
      unfolding s1_def using Cons.prems(2) by (simp add: spec_recount_stats(2) [OF Cons.prems(1)])
    have dl1: "distinct (map (\<lambda>l. (postId_pl l, userId_pl l)) (postLike_tbl s1))"
      unfolding s1_def ls_def
      using spec_likes_after_distinct [OF Cons.prems(3), of p "[op]"]
      by (simp add: spec_recount_stats(3) [OF Cons.prems(1)])
    from Cons.IH [OF st1 ds1 dl1 False]
    have "runLikeOps p ops s1 = (Inr (), spec_recount p (spec_likes_after p ops ls) s)"
      by (simp add: s1_def spec_recount_stats(3,4) [OF Cons.prems(1)])
    with step after show ?thesis by simp
  qed
qed

lemma post_create_ok:
  assumes "\<forall>x\<in>set (post_tbl s). id_p x \<noteq> id_p p \<and> slug x \<noteq> slug p"
  shows "post_create p s = (Inr p, s\<lparr>post_tbl := post_tbl s @ [p]\<rparr>)"
proof -
  from assms have "find (\<lambda>r. id_p r = id_p p \<or> slug r = slug p) (post_tbl s) = None"
    by (auto simp: find_None_iff)
  then show ?thesis by (simp add: post_create_def)
qed

lemma post_create_taken:
  assumes "x \<in> set (post_tbl s)" "slug x = slug p"
  shows "post_create p s = (Inl UniqueConstraint, s)"
proof -
  from assms have "find (\<lambda>r. id_p r = id_p p \<or> slug r = slug p) (post_tbl s) \<noteq> None"
    by (auto simp: find_None_iff)
  then show ?thesis by (simp add: post_create_def)
qed

lemma postStats_create_ok:
  assumes "\<forall>x\<in>set (postStats_tbl s). postId_s x \<noteq> postId_s r"
  shows "postStats_create r s = (Inr r, s\<lparr>postStats_tbl := postStats_tbl s @ [r]\<rparr>)"
proof -
  from assms have "find (\<lambda>x. postId_s x = postId_s r) (postStats_tbl s) = None"
    by (auto simp: find_None_iff)
  then show ?thesis by (simp add: postStats_create_def)
qed

section \<open>The claims\<close>

subsection \<open>C1: cursor pagination of posts\<close>

text \<open>
  What paging through the posts returns: when the post ids are unique and non-empty and
  the number of calls is not cut short, \<open>listAll\<close> from no cursor returns the posts
  newest first without the first of them.  Every post but the newest is returned once;
  the newest is returned by no page.
\<close>

lemma listAll_omits_newest:
  assumes "distinct (map id_p (post_tbl s))"
    and "\<forall>p\<in>set (post_tbl s). id_p p \<noteq> []"
    and "length (post_tbl s) \<le> 20 * fuel"
  shows "map id_p (listAll fuel s None userId) = map id_p (tl (newest_first s))"
proof -
  have d: "distinct (map id_p (newest_first s))"
    using assms(1) unfolding newest_first_def
    by (metis distinct_map distinct_sort set_sort)
  have n: "\<forall>p\<in>set (newest_first s). id_p p \<noteq> []"
    using assms(2) by (simp add: newest_first_def)
  have l: "length (newest_first s) < 0 + 1 + 20 * fuel"
    using assms(3) by (simp add: newest_first_def)
  from listAll_from [OF d n start_at_None l, of userId] show ?thesis
    by (simp add: drop_Suc)
qed

text \<open>
  Claim C1 says that \<^verbatim>\<open>findPostsByQuries\<close>, called first without a cursor and then with
  each returned \<^verbatim>\<open>nextCursor\<close>, returns every post exactly once, newest first.  The
  query passes \<^verbatim>\<open>skip: 1\<close> on every call, also on the first one, where there is no
  cursor row to pass over: the newest post is skipped and no page ever holds it.  On the
  store \<open>exDb\<close>, whose only post is \<open>p1\<close>, the first page is empty and has no next
  cursor; on \<open>exDb2\<close>, with the newer post \<open>p2\<close>, the first page holds \<open>p1\<close> alone and
  ends the listing, so that paging through the posts never returns \<open>p2\<close>.
\<close>

theorem findPostsByQuries_skips_newest:
  "findPostsByQuries exDb None None = ([], None) \<and>
   map id_p (fst (findPostsByQuries exDb2 None None)) = [''p1''] \<and>
   snd (findPostsByQuries exDb2 None None) = None \<and>
   map id_p (listAll 3 exDb2 None None) = [''p1'']"
proof -
  have 1: "findPostsByQuries exDb None None = ([], None)"
    by (simp add: findPostsByQuries_def post_findMany_def truthy_def nth_opt_def exDb_def)
  have 2: "map id_p (fst (findPostsByQuries exDb2 None None)) = [''p1'']"
    by (simp add: findPostsByQuries_ids start_at_def newest_first_def truthy_def
        exDb2_def exDb_def)
  have 3: "snd (findPostsByQuries exDb2 None None) = None"
    by (simp add: findPostsByQuries_next start_at_def newest_first_def truthy_def nth_opt_def
        exDb2_def exDb_def)
  obtain posts where run: "findPostsByQuries exDb2 None None = (posts, None)"
    using 3 by (cases "findPostsByQuries exDb2 None None") simp
  with 2 have "map id_p (listAll 3 exDb2 None None) = [''p1'']"
    by (simp add: numeral_3_eq_3)
  with 1 2 3 show ?thesis by simp
qed

subsection \<open>C2: likes are idempotent and recounted\<close>

text \<open>
  Claim C2: \<^verbatim>\<open>likePost\<close> and \<^verbatim>\<open>unlikePost\<close> are idempotent on the (post, user) join
  row, and the persisted \<^verbatim>\<open>likes\<close> is the number of join rows of the post.  For a post
  that has its stats row, in a store that keeps the unique keys of the stats table (the
  post id) and of the like table (the pair of post and user): \<^verbatim>\<open>likePost\<close> returns the
  stats row with the new count and leaves exactly the store in which the like table is
  the old one with the row of the pair added at the end if it had none, the stats row of
  the post holds the number of like rows of the post, and nothing else has changed; a
  second call returns the same stats and leaves that store as it is, with exactly one
  join row of the pair.  \<^verbatim>\<open>unlikePost\<close> likewise, its like table being exactly the old
  one without the row of the pair, with no join row of the pair after it.  After any
  non-empty sequence of like and unlike calls on the post, by any users, the like table
  is the one that the sequence of toggles describes, and the persisted \<^verbatim>\<open>likes\<close> of the
  post is the number of its join rows.
\<close>

theorem likePost_toggle_recount:
  assumes "find (\<lambda>r. postId_s r = p) (postStats_tbl s) = Some r"
    and "distinct (map postId_s (postStats_tbl s))"
    and "distinct (map (\<lambda>l. (postId_pl l, userId_pl l)) (postLike_tbl s))"
  shows "(likePost u p s =
            (Inr (r\<lparr>likes_s := int (length (filter (\<lambda>l. postId_pl l = p)
                                               (spec_like p u (postLike_tbl s))))\<rparr>),
             spec_recount p (spec_like p u (postLike_tbl s)) s) \<and>
          likePost u p (spec_recount p (spec_like p u (postLike_tbl s)) s) =
            (Inr (r\<lparr>likes_s := int (length (filter (\<lambda>l. postId_pl l = p)
                                               (spec_like p u (postLike_tbl s))))\<rparr>),
             spec_recount p (spec_like p u (postLike_tbl s)) s) \<and>
          length (filter (\<lambda>l. postId_pl l = p \<and> userId_pl l = u)
                    (spec_like p u (postLike_tbl s))) = 1) \<and>
         (unlikePost u p s =
            (Inr (r\<lparr>likes_s := int (length (filter (\<lambda>l. postId_pl l = p)
                                               (spec_unlike p u (postLike_tbl s))))\<rparr>),
             spec_recount p (spec_unlike p u (postLike_tbl s)) s) \<and>
          unlikePost u p (spec_recount p (spec_unlike p u (postLike_tbl s)) s) =
            (Inr (r\<lparr>likes_s := int (length (filter (\<lambda>l. postId_pl l = p)
                                               (spec_unlike p u (postLike_tbl s))))\<rparr>),
             spec_recount p (spec_unlike p u (postLike_tbl s)) s) \<and>
          length (filter (\<lambda>l. postId_pl l = p \<and> userId_pl l = u)
                    (spec_unlike p u (postLike_tbl s))) = 0) \<and>
         (ops \<noteq> [] \<longrightarrow>
            runLikeOps p ops s =
              (Inr (), spec_recount p (spec_likes_after p ops (postLike_tbl s)) s) \<and>
            find (\<lambda>r. postId_s r = p)
              (postStats_tbl (spec_recount p (spec_likes_after p ops (postLike_tbl s)) s)) =
              Some (r\<lparr>likes_s :=
                       int (length (filter (\<lambda>l. postId_pl l = p)
                         (postLike_tbl
                            (spec_recount p (spec_likes_after p ops (postLike_tbl s)) s))))\<rparr>))"
proof (intro conjI impI)
  let ?ls = "spec_like p u (postLike_tbl s)"
  let ?s1 = "spec_recount p ?ls s"
  show "likePost u p s =
            (Inr (r\<lparr>likes_s := int (length (filter (\<lambda>l. postId_pl l = p) ?ls))\<rparr>), ?s1)"
    by (rule likePost_exact [OF assms(1,2)])
  have st1: "find (\<lambda>r. postId_s r = p) (postStats_tbl ?s1) =
               Some (r\<lparr>likes_s := int (length (filter (\<lambda>l. postId_pl l = p) ?ls))\<rparr>)"
    by (rule spec_recount_stats(1) [OF assms(1)])
  have ds1: "distinct (map postId_s (postStats_tbl ?s1))"
    using assms(2) by (simp add: spec_recount_stats(2) [OF assms(1)])
  from likePost_exact [OF st1 ds1, of u]
  show "likePost u p ?s1 =
            (Inr (r\<lparr>likes_s := int (length (filter (\<lambda>l. postId_pl l = p) ?ls))\<rparr>), ?s1)"
    by (simp add: spec_recount_stats(3,4) [OF assms(1)] spec_like_idem)
  show "length (filter (\<lambda>l. postId_pl l = p \<and> userId_pl l = u) ?ls) = 1"
    by (rule spec_like_one [OF assms(3)])
next
  let ?ls = "spec_unlike p u (postLike_tbl s)"
  let ?s1 = "spec_recount p ?ls s"
  show "unlikePost u p s =
            (Inr (r\<lparr>likes_s := int (length (filter (\<lambda>l. postId_pl l = p) ?ls))\<rparr>), ?s1)"
    by (rule unlikePost_exact [OF assms])
  have st1: "find (\<lambda>r. postId_s r = p) (postStats_tbl ?s1) =
               Some (r\<lparr>likes_s := int (length (filter (\<lambda>l. postId_pl l = p) ?ls))\<rparr>)"
    by (rule spec_recount_stats(1) [OF assms(1)])
  have ds1: "distinct (map postId_s (postStats_tbl ?s1))"
    using assms(2) by (simp add: spec_recount_stats(2) [OF assms(1)])
  have dl1: "distinct (map (\<lambda>l. (postId_pl l, userId_pl l)) (postLike_tbl ?s1))"
    using spec_unlike_distinct [OF assms(3), of p u]
    by (simp add: spec_recount_stats(3) [OF assms(1)])
  from unlikePost_exact [OF st1 ds1 dl1, of u]
  show "unlikePost u p ?s1 =
            (Inr (r\<lparr>likes_s := int (length (filter (\<lambda>l. postId_pl l = p) ?ls))\<rparr>), ?s1)"
    by (simp add: spec_recount_stats(3,4) [OF assms(1)] spec_unlike_idem)
  show "length (filter (\<lambda>l. postId_pl l = p \<and> userId_pl l = u) ?ls) = 0"
    by (rule spec_unlike_none)
next
  assume "ops \<noteq> []"
  then show "runLikeOps p ops s =
              (Inr (), spec_recount p (spec_likes_after p ops (postLike_tbl s)) s)"
    by (rule runLikeOps_exact [OF assms])
next
  show "find (\<lambda>r. postId_s r = p)
              (postStats_tbl (spec_recount p (spec_likes_after p ops (postLike_tbl s)) s)) =
              Some (r\<lparr>likes_s :=
                       int (length (filter (\<lambda>l. postId_pl l = p)
                         (postLike_tbl
                            (spec_recount p (spec_likes_after p ops (postLike_tbl s)) s))))\<rparr>)"
    by (simp add: spec_recount_stats(1,3) [OF assms(1)])
qed

theorem likePost_toggle_recount_witness:
  "unlikePost ''u1'' ''p1'' exDbL =
     (Inr \<lparr>postId_s = ''p1'', likes_s = 1, commentsCount = 5\<rparr>,
      exDbL\<lparr>postLike_tbl :=
              [\<lparr>postId_pl = ''p2'', userId_pl = ''u2''\<rparr>, \<lparr>postId_pl = ''p1'', userId_pl = ''u2''\<rparr>],
            postStats_tbl :=
              [\<lparr>postId_s = ''p2'', likes_s = 1, commentsCount = 0\<rparr>,
               \<lparr>postId_s = ''p1'', likes_s = 1, commentsCount = 5\<rparr>]\<rparr>) \<and>
   likePost ''u2'' ''p1'' exDbL =
     (Inr \<lparr>postId_s = ''p1'', likes_s = 2, commentsCount = 5\<rparr>, exDbL) \<and>
   likePost ''u1'' ''p2'' exDbL =
     (Inr \<lparr>postId_s = ''p2'', likes_s = 2, commentsCount = 0\<rparr>,
      exDbL\<lparr>postLike_tbl := postLike_tbl exDbL @ [\<lparr>postId_pl = ''p2'', userId_pl = ''u1''\<rparr>],
            postStats_tbl :=
              [\<lparr>postId_s = ''p2'', likes_s = 2, commentsCount = 0\<rparr>,
               \<lparr>postId_s = ''p1'', likes_s = 2, commentsCount = 5\<rparr>]\<rparr>) \<and>
   runLikeOps ''p1'' [Unlike ''u1'', Unlike ''u2'', Like ''u1''] exDbL =
     (Inr (),
      exDbL\<lparr>postLike_tbl :=
              [\<lparr>postId_pl = ''p2'', userId_pl = ''u2''\<rparr>, \<lparr>postId_pl = ''p1'', userId_pl = ''u1''\<rparr>],
            postStats_tbl :=
              [\<lparr>postId_s = ''p2'', likes_s = 1, commentsCount = 0\<rparr>,
               \<lparr>postId_s = ''p1'', likes_s = 1, commentsCount = 5\<rparr>]\<rparr>)"
proof -
  have st: "find (\<lambda>r. postId_s r = ''p1'') (postStats_tbl exDbL) =
              Some \<lparr>postId_s = ''p1'', likes_s = 2, commentsCount = 5\<rparr>"
    and st2: "find (\<lambda>r. postId_s r = ''p2'') (postStats_tbl exDbL) =
              Some \<lparr>postId_s = ''p2'', likes_s = 1, commentsCount = 0\<rparr>"
    and ds: "distinct (map postId_s (postStats_tbl exDbL))"
    and dl: "distinct (map (\<lambda>l. (postId_pl l, userId_pl l)) (postLike_tbl exDbL))"
    by (simp_all add: exDbL_def)
  have ops: "[Unlike ''u1'', Unlike ''u2'', Like ''u1''] \<noteq> []"
    by simp
  note T = likePost_toggle_recount [OF st ds dl]
  note T2 = likePost_toggle_recount [OF st2 ds dl]
  from T [of "''u1''", THEN conjunct2, THEN conjunct1, THEN conjunct1]
  have 1: "unlikePost ''u1'' ''p1'' exDbL =
     (Inr \<lparr>postId_s = ''p1'', likes_s = 1, commentsCount = 5\<rparr>,
      exDbL\<lparr>postLike_tbl :=
              [\<lparr>postId_pl = ''p2'', userId_pl = ''u2''\<rparr>, \<lparr>postId_pl = ''p1'', userId_pl = ''u2''\<rparr>],
            postStats_tbl :=
              [\<lparr>postId_s = ''p2'', likes_s = 1, commentsCount = 0\<rparr>,
               \<lparr>postId_s = ''p1'', likes_s = 1, commentsCount = 5\<rparr>]\<rparr>)"
    by (simp add: spec_defs exDbL_def)
  from T [of "''u2''", THEN conjunct1, THEN conjunct1]
  have 2: "likePost ''u2'' ''p1'' exDbL =
     (Inr \<lparr>postId_s = ''p1'', likes_s = 2, commentsCount = 5\<rparr>, exDbL)"
    by (simp add: spec_defs exDbL_def)
  from T2 [of "''u1''", THEN conjunct1, THEN conjunct1]
  have 3: "likePost ''u1'' ''p2'' exDbL =
     (Inr \<lparr>postId_s = ''p2'', likes_s = 2, commentsCount = 0\<rparr>,
      exDbL\<lparr>postLike_tbl := postLike_tbl exDbL @ [\<lparr>postId_pl = ''p2'', userId_pl = ''u1''\<rparr>],
            postStats_tbl :=
              [\<lparr>postId_s = ''p2'', likes_s = 2, commentsCount = 0\<rparr>,
               \<lparr>postId_s = ''p1'', likes_s = 2, commentsCount = 5\<rparr>]\<rparr>)"
    by (simp add: spec_defs exDbL_def)
  from T [of _ "[Unlike ''u1'', Unlike ''u2'', Like ''u1'']",
      THEN conjunct2, THEN conjunct2, THEN mp, OF ops, THEN conjunct1]
  have 4: "runLikeOps ''p1'' [Unlike ''u1'', Unlike ''u2'', Like ''u1''] exDbL =
     (Inr (),
      exDbL\<lparr>postLike_tbl :=
              [\<lparr>postId_pl = ''p2'', userId_pl = ''u2''\<rparr>, \<lparr>postId_pl = ''p1'', userId_pl = ''u1''\<rparr>],
            postStats_tbl :=
              [\<lparr>postId_s = ''p2'', likes_s = 1, commentsCount = 0\<rparr>,
               \<lparr>postId_s = ''p1'', likes_s = 1, commentsCount = 5\<rparr>]\<rparr>)"
    by (simp add: spec_defs exDbL_def)
  from 1 2 3 4 show ?thesis by simp
qed

subsection \<open>C3: replies are one level deep\<close>

text \<open>
  Claim C3: for a \<^verbatim>\<open>createComment\<close> call that names a parent comment (a non-empty
  \<^verbatim>\<open>parentCommentId\<close>), in a store whose comment ids are unique: when the parent is
  absent or soft-deleted the call fails with \<open>NotFound\<close>; when the parent is a reply
  (level 1) it fails with \<open>BadRequest\<close>; in both cases the store is returned unchanged.
  When the parent is a live root (level 0), the id of the new row is fresh and the post
  of the call has its stats row, the call succeeds and the stored comment has level 1
  and the parent's id as \<^verbatim>\<open>parentCommentId\<close>.
\<close>

theorem createComment_reply:
  assumes "distinct (map id_c (comment_tbl s))"
    and "parentCommentId_dto dto = Some pid" and "pid \<noteq> ''''"
  shows "(((\<forall>p\<in>set (comment_tbl s). id_c p \<noteq> pid) \<or>
           (\<exists>p\<in>set (comment_tbl s). id_c p = pid \<and> deletedAt p \<noteq> None)) \<longrightarrow>
            createComment newId now userId dto s = (Inl NotFound, s)) \<and>
         ((\<exists>p\<in>set (comment_tbl s). id_c p = pid \<and> deletedAt p = None \<and> level p = 1) \<longrightarrow>
            createComment newId now userId dto s = (Inl BadRequest, s)) \<and>
         ((\<exists>p\<in>set (comment_tbl s). id_c p = pid \<and> deletedAt p = None \<and> level p = 0) \<and>
          (\<forall>x\<in>set (comment_tbl s). id_c x \<noteq> newId) \<and>
          (\<exists>r\<in>set (postStats_tbl s). postId_s r = postId_dto dto) \<longrightarrow>
            (\<exists>c s'. createComment newId now userId dto s = (Inr c, s') \<and>
                    level c = 1 \<and> parentCommentId c = Some pid \<and> id_c c = newId \<and>
                    c \<in> set (comment_tbl s')))"
proof (intro conjI impI)
  assume "(\<forall>p\<in>set (comment_tbl s). id_c p \<noteq> pid) \<or>
           (\<exists>p\<in>set (comment_tbl s). id_c p = pid \<and> deletedAt p \<noteq> None)"
  then have "findComment s pid = Inl NotFound"
    using findComment_absent [of s pid] findComment_deleted [OF assms(1)] by blast
  then show "createComment newId now userId dto s = (Inl NotFound, s)"
    by (simp add: createComment_def assms(2) truthy_Some [OF assms(3)])
next
  assume "\<exists>p\<in>set (comment_tbl s). id_c p = pid \<and> deletedAt p = None \<and> level p = 1"
  then obtain p where p: "p \<in> set (comment_tbl s)" "id_c p = pid" "deletedAt p = None" "level p = 1"
    by blast
  have "findComment s pid = Inr (comment_with_user s p)"
    using findComment_live [OF assms(1) p(1) p(3)] p(2) by simp
  then show "createComment newId now userId dto s = (Inl BadRequest, s)"
    by (simp add: createComment_def assms(2) truthy_Some [OF assms(3)] level_comment_with_user p(4))
next
  assume "(\<exists>p\<in>set (comment_tbl s). id_c p = pid \<and> deletedAt p = None \<and> level p = 0) \<and>
          (\<forall>x\<in>set (comment_tbl s). id_c x \<noteq> newId) \<and>
          (\<exists>r\<in>set (postStats_tbl s). postId_s r = postId_dto dto)"
  then obtain p r0 where p: "p \<in> set (comment_tbl s)" "id_c p = pid" "deletedAt p = None" "level p = 0"
    and fresh: "\<forall>x\<in>set (comment_tbl s). id_c x \<noteq> newId"
    and r0: "r0 \<in> set (postStats_tbl s)" "postId_s r0 = postId_dto dto"
    by blast
  have fc: "findComment s pid = Inr (comment_with_user s p)"
    using findComment_live [OF assms(1) p(1) p(3)] p(2) by simp
  define c where "c = \<lparr>id_c = newId, text_c = text_dto dto, userId_c = Some userId,
                 postId_c = postId_dto dto, parentCommentId = Some pid,
                 level = 1, likes_c = 0, subCommentsCount = 0, deletedAt = None,
                 createdAt_c = now, updatedAt_c = now\<rparr>"
  define s1 where "s1 = s\<lparr>comment_tbl := comment_tbl s @ [c]\<rparr>"
  have cc: "comment_create c s = (Inr c, s1)"
    unfolding s1_def by (rule comment_create_fresh) (simp add: c_def fresh)
  have p1: "p \<in> set (comment_tbl s1)" by (simp add: s1_def p(1))
  have c1: "c \<in> set (comment_tbl s1)" "id_c c \<noteq> pid"
    using fresh p(1,2) by (auto simp: s1_def c_def)
  define f :: "comment \<Rightarrow> comment" where "f = subCommentsCount_update (\<lambda>_::int. count_where (\<lambda>c. parentCommentId c = Some pid) (comment_tbl s1))"
  from comment_update_ok [OF p1 p(2), of f] c1 obtain cs
    where cu: "comment_update pid f s1 = (Inr (), s1\<lparr>comment_tbl := cs\<rparr>)" and c2: "c \<in> set cs"
    by blast
  define s2 where "s2 = s1\<lparr>comment_tbl := cs\<rparr>"
  obtain r where r: "find (\<lambda>r. postId_s r = postId_dto dto) (postStats_tbl s2) = Some r"
    using r0 by (cases "find (\<lambda>r. postId_s r = postId_dto dto) (postStats_tbl s2)")
      (auto simp: find_None_iff s2_def s1_def)
  from updatePostCommentsCount_ok [OF r] obtain rs n
    where up: "updatePostCommentsCount (postId_dto dto) s2 = (Inr n, s2\<lparr>postStats_tbl := rs\<rparr>)"
    by blast
  have lc: "level c = 1" by (simp add: c_def)
  have "createComment newId now userId dto s = (Inr c, s2\<lparr>postStats_tbl := rs\<rparr>)"
    using cc cu up lc
    by (simp add: createComment_def assms(2) truthy_Some [OF assms(3)] fc level_comment_with_user
        id_comment_with_user p(2,4) c_def [symmetric] f_def [symmetric] s2_def [symmetric])
  moreover have "level c = 1" "parentCommentId c = Some pid" "id_c c = newId"
    by (simp_all add: c_def)
  moreover have "c \<in> set (comment_tbl (s2\<lparr>postStats_tbl := rs\<rparr>))"
    using c2 by (simp add: s2_def)
  ultimately show "\<exists>c s'. createComment newId now userId dto s = (Inr c, s') \<and>
                    level c = 1 \<and> parentCommentId c = Some pid \<and> id_c c = newId \<and>
                    c \<in> set (comment_tbl s')"
    by blast
qed

theorem createComment_reply_witness:
  "createComment ''N'' 1000 ''u2''
     \<lparr>text_dto = ''r'', postId_dto = ''p1'', parentCommentId_dto = Some ''Z''\<rparr> exDb =
     (Inl NotFound, exDb) \<and>
   createComment ''N'' 1000 ''u2''
     \<lparr>text_dto = ''r'', postId_dto = ''p1'', parentCommentId_dto = Some ''C''\<rparr> exDb =
     (Inl NotFound, exDb) \<and>
   createComment ''N'' 1000 ''u2''
     \<lparr>text_dto = ''r'', postId_dto = ''p1'', parentCommentId_dto = Some ''B1''\<rparr> exDb =
     (Inl BadRequest, exDb) \<and>
   (\<exists>c s'. createComment ''N'' 1000 ''u2''
             \<lparr>text_dto = ''r'', postId_dto = ''p1'', parentCommentId_dto = Some ''A''\<rparr> exDb =
             (Inr c, s') \<and>
           level c = 1 \<and> parentCommentId c = Some ''A'' \<and> id_c c = ''N'' \<and>
           c \<in> set (comment_tbl s'))"
proof -
  have d: "distinct (map id_c (comment_tbl exDb))"
    by (simp add: ex_defs)
  have absent: "(\<forall>p\<in>set (comment_tbl exDb). id_c p \<noteq> ''Z'') \<or>
                (\<exists>p\<in>set (comment_tbl exDb). id_c p = ''Z'' \<and> deletedAt p \<noteq> None)"
    by (simp add: ex_defs)
  have deleted: "(\<forall>p\<in>set (comment_tbl exDb). id_c p \<noteq> ''C'') \<or>
                 (\<exists>p\<in>set (comment_tbl exDb). id_c p = ''C'' \<and> deletedAt p \<noteq> None)"
    by (simp add: ex_defs)
  have reply: "\<exists>p\<in>set (comment_tbl exDb). id_c p = ''B1'' \<and> deletedAt p = None \<and> level p = 1"
    by (simp add: ex_defs)
  have root: "(\<exists>p\<in>set (comment_tbl exDb). id_c p = ''A'' \<and> deletedAt p = None \<and> level p = 0) \<and>
              (\<forall>x\<in>set (comment_tbl exDb). id_c x \<noteq> ''N'') \<and>
              (\<exists>r\<in>set (postStats_tbl exDb). postId_s r = ''p1'')"
    by (simp add: ex_defs)
  have ne: "''Z'' \<noteq> ''''" "''C'' \<noteq> ''''" "''B1'' \<noteq> ''''" "''A'' \<noteq> ''''"
    by simp_all
  have sel: "parentCommentId_dto \<lparr>text_dto = ''r'', postId_dto = ''p1'', parentCommentId_dto = Some q\<rparr> = Some q"
    for q by simp
  have pst: "postId_dto \<lparr>text_dto = ''r'', postId_dto = ''p1'', parentCommentId_dto = Some q\<rparr> = ''p1''"
    for q by simp
  note t = createComment_reply [OF d sel, where newId = "''N''" and now = 1000 and userId = "''u2''"]
  from t [OF ne(1), THEN conjunct1] absent
  have 1: "createComment ''N'' 1000 ''u2''
     \<lparr>text_dto = ''r'', postId_dto = ''p1'', parentCommentId_dto = Some ''Z''\<rparr> exDb =
     (Inl NotFound, exDb)" by blast
  from t [OF ne(2), THEN conjunct1] deleted
  have 2: "createComment ''N'' 1000 ''u2''
     \<lparr>text_dto = ''r'', postId_dto = ''p1'', parentCommentId_dto = Some ''C''\<rparr> exDb =
     (Inl NotFound, exDb)" by blast
  from t [OF ne(3), THEN conjunct2, THEN conjunct1] reply
  have 3: "createComment ''N'' 1000 ''u2''
     \<lparr>text_dto = ''r'', postId_dto = ''p1'', parentCommentId_dto = Some ''B1''\<rparr> exDb =
     (Inl BadRequest, exDb)" by blast
  from t [OF ne(4), THEN conjunct2, THEN conjunct2] root
  have 4: "\<exists>c s'. createComment ''N'' 1000 ''u2''
             \<lparr>text_dto = ''r'', postId_dto = ''p1'', parentCommentId_dto = Some ''A''\<rparr> exDb =
             (Inr c, s') \<and>
           level c = 1 \<and> parentCommentId c = Some ''A'' \<and> id_c c = ''N'' \<and>
           c \<in> set (comment_tbl s')" unfolding pst by blast
  from 1 2 3 4 show ?thesis by simp
qed

subsection \<open>C4: masking of soft-deleted comments\<close>

text \<open>
  Claim C4: \<^verbatim>\<open>hideDeletedComments\<close> returns a list of the same length; at every position
  the id, the parent id and the level are those of the input; a comment whose delete
  timestamp is set is rendered with empty text, zero likes, the null author, both
  timestamps at the epoch and \<^verbatim>\<open>isDeleted\<close> true; a comment whose delete timestamp is
  null is the input comment extended with \<^verbatim>\<open>isDeleted\<close> false.  The list result has the
  masking applied: every top-level comment and every sub comment of a result of
  \<^verbatim>\<open>findComments\<close> whose delete timestamp is set has empty text, zero likes, the null
  author, both timestamps at the epoch and \<^verbatim>\<open>isDeleted\<close> true, one whose delete
  timestamp is null has \<^verbatim>\<open>isDeleted\<close> false, and each of them renders a stored comment,
  with the id, the parent id, the level and the delete timestamp of that row and, when
  the row is live, with all of its stored fields.  The masking removes nothing: for a
  post found by its slug, every root comment of the post is a top-level element of the
  result, and every reply to a root comment of the post is among the sub comments of that
  root, with its id and its delete timestamp, soft-deleted or not (the grouping looks
  replies up by a non-empty parent id).  The masking is a function of the fetched list:
  \<^verbatim>\<open>findComments\<close> takes the store and returns none, so the stored rows keep their text,
  likes and author.
\<close>

theorem hideDeletedComments_masks:
  "length (hideDeletedComments cs) = length cs \<and>
   (\<forall>i < length cs.
      id_c (hideDeletedComments cs ! i) = id_c (cs ! i) \<and>
      parentCommentId (hideDeletedComments cs ! i) = parentCommentId (cs ! i) \<and>
      level (hideDeletedComments cs ! i) = level (cs ! i) \<and>
      (deletedAt (cs ! i) \<noteq> None \<longrightarrow>
         text_c (hideDeletedComments cs ! i) = '''' \<and>
         likes_c (hideDeletedComments cs ! i) = 0 \<and>
         user_c (hideDeletedComments cs ! i) = \<lparr>id_a = None, username_a = None\<rparr> \<and>
         createdAt_c (hideDeletedComments cs ! i) = 0 \<and>
         updatedAt_c (hideDeletedComments cs ! i) = 0 \<and>
         isDeleted (hideDeletedComments cs ! i)) \<and>
      (deletedAt (cs ! i) = None \<longrightarrow>
         hideDeletedComments cs ! i = comment_liked.extend (cs ! i) (comment_shown.fields False))) \<and>
   (findComments s sl viewer = Inr gs \<longrightarrow>
      (\<forall>g\<in>set gs.
         ((deletedAt g \<noteq> None \<longrightarrow>
             text_c g = '''' \<and> likes_c g = 0 \<and>
             user_c g = \<lparr>id_a = None, username_a = None\<rparr> \<and>
             createdAt_c g = 0 \<and> updatedAt_c g = 0 \<and> isDeleted g) \<and>
          (deletedAt g = None \<longrightarrow> \<not> isDeleted g) \<and>
          (\<exists>c\<in>set (comment_tbl s).
             id_c g = id_c c \<and> parentCommentId g = parentCommentId c \<and> level g = level c \<and>
             deletedAt g = deletedAt c \<and> (deletedAt c = None \<longrightarrow> comment.truncate g = c))) \<and>
         (\<forall>x\<in>set (subComments g).
            (deletedAt x \<noteq> None \<longrightarrow>
               text_c x = '''' \<and> likes_c x = 0 \<and>
               user_c x = \<lparr>id_a = None, username_a = None\<rparr> \<and>
               createdAt_c x = 0 \<and> updatedAt_c x = 0 \<and> isDeleted x) \<and>
            (deletedAt x = None \<longrightarrow> \<not> isDeleted x) \<and>
            (\<exists>c\<in>set (comment_tbl s).
               id_c x = id_c c \<and> parentCommentId x = parentCommentId c \<and> level x = level c \<and>
               deletedAt x = deletedAt c \<and> (deletedAt c = None \<longrightarrow> comment.truncate x = c))))) \<and>
   (find (\<lambda>p. slug p = sl) (post_tbl s) = Some post \<longrightarrow>
      (\<exists>gs'. findComments s sl viewer = Inr gs' \<and>
         (\<forall>c\<in>set (comment_tbl s). postId_c c = id_p post \<longrightarrow>
            (parentCommentId c = None \<longrightarrow>
               (\<exists>g\<in>set gs'. id_c g = id_c c \<and> deletedAt g = deletedAt c)) \<and>
            (\<forall>r\<in>set (comment_tbl s).
               postId_c r = id_p post \<and> parentCommentId r = None \<and>
               parentCommentId c = Some (id_c r) \<and> id_c r \<noteq> '''' \<longrightarrow>
               (\<exists>g\<in>set gs'. id_c g = id_c r \<and>
                  (\<exists>x\<in>set (subComments g). id_c x = id_c c \<and> deletedAt x = deletedAt c))))))"
proof (intro conjI impI ballI)
  fix g assume run: "findComments s sl viewer = Inr gs" and g: "g \<in> set gs"
  from findComments_top [OF run g] obtain m c
    where c: "c \<in> set (comment_tbl s)"
      and eq: "comment_shown.truncate g = shown_comment m (comment_with_user s c)"
    by blast
  note r = shown_comment_rendering [of m s c, folded eq, unfolded truncate_fields]
  from r show "deletedAt g \<noteq> None \<Longrightarrow> text_c g = ''''" by simp
  from r show "deletedAt g \<noteq> None \<Longrightarrow> likes_c g = 0" by simp
  from r show "deletedAt g \<noteq> None \<Longrightarrow> user_c g = \<lparr>id_a = None, username_a = None\<rparr>" by simp
  from r show "deletedAt g \<noteq> None \<Longrightarrow> createdAt_c g = 0" by simp
  from r show "deletedAt g \<noteq> None \<Longrightarrow> updatedAt_c g = 0" by simp
  from r show "deletedAt g \<noteq> None \<Longrightarrow> isDeleted g" by simp
  from r show "deletedAt g = None \<Longrightarrow> \<not> isDeleted g" by simp
  from r c show "\<exists>c\<in>set (comment_tbl s).
             id_c g = id_c c \<and> parentCommentId g = parentCommentId c \<and> level g = level c \<and>
             deletedAt g = deletedAt c \<and> (deletedAt c = None \<longrightarrow> comment.truncate g = c)"
    by (intro bexI [of _ c]) simp_all
next
  fix g x assume run: "findComments s sl viewer = Inr gs" and g: "g \<in> set gs"
    and x: "x \<in> set (subComments g)"
  from findComments_sub [OF run g x] obtain m c
    where c: "c \<in> set (comment_tbl s)"
      and eq: "x = shown_comment m (comment_with_user s c)"
    by blast
  note r = shown_comment_rendering [of m s c, folded eq]
  from r show "deletedAt x \<noteq> None \<Longrightarrow> text_c x = ''''" by simp
  from r show "deletedAt x \<noteq> None \<Longrightarrow> likes_c x = 0" by simp
  from r show "deletedAt x \<noteq> None \<Longrightarrow> user_c x = \<lparr>id_a = None, username_a = None\<rparr>" by simp
  from r show "deletedAt x \<noteq> None \<Longrightarrow> createdAt_c x = 0" by simp
  from r show "deletedAt x \<noteq> None \<Longrightarrow> updatedAt_c x = 0" by simp
  from r show "deletedAt x \<noteq> None \<Longrightarrow> isDeleted x" by simp
  from r show "deletedAt x = None \<Longrightarrow> \<not> isDeleted x" by simp
  from r c show "\<exists>c\<in>set (comment_tbl s).
             id_c x = id_c c \<and> parentCommentId x = parentCommentId c \<and> level x = level c \<and>
             deletedAt x = deletedAt c \<and> (deletedAt c = None \<longrightarrow> comment.truncate x = c)"
    by (intro bexI [of _ c]) simp_all
next
  assume post: "find (\<lambda>p. slug p = sl) (post_tbl s) = Some post"
  from findComments_Some [OF post, of viewer] obtain gs'
    where run: "findComments s sl viewer = Inr gs'" by blast
  have root: "\<exists>g\<in>set gs'. id_c g = id_c c \<and> deletedAt g = deletedAt c"
    if "c \<in> set (comment_tbl s)" "postId_c c = id_p post" "parentCommentId c = None" for c
  proof -
    from listed_root [OF post that, of viewer] run obtain m g
      where "g \<in> set gs'" "comment_shown.truncate g = shown_comment m (comment_with_user s c)"
      by auto
    with shown_comment_rendering [of m s c, folded this(2), unfolded truncate_fields]
    show ?thesis by blast
  qed
  have reply: "\<exists>g\<in>set gs'. id_c g = id_c r \<and>
                  (\<exists>x\<in>set (subComments g). id_c x = id_c c \<and> deletedAt x = deletedAt c)"
    if "c \<in> set (comment_tbl s)" "postId_c c = id_p post" "r \<in> set (comment_tbl s)"
      "postId_c r = id_p post" "parentCommentId r = None" "parentCommentId c = Some (id_c r)"
      "id_c r \<noteq> ''''" for c r
  proof -
    from listed_reply [OF post that, of viewer] run obtain m g
      where g: "g \<in> set gs'" "comment_shown.truncate g = shown_comment m (comment_with_user s r)"
        "shown_comment m (comment_with_user s c) \<in> set (subComments g)"
      by auto
    have "id_c g = id_c r"
      using shown_comment_rendering [of m s r, folded g(2), unfolded truncate_fields] by simp
    moreover have "id_c (shown_comment m (comment_with_user s c)) = id_c c"
      "deletedAt (shown_comment m (comment_with_user s c)) = deletedAt c"
      by (simp_all add: shown_comment_kept)
    ultimately show ?thesis using g(1,3) by blast
  qed
  show "\<exists>gs'. findComments s sl viewer = Inr gs' \<and>
         (\<forall>c\<in>set (comment_tbl s). postId_c c = id_p post \<longrightarrow>
            (parentCommentId c = None \<longrightarrow>
               (\<exists>g\<in>set gs'. id_c g = id_c c \<and> deletedAt g = deletedAt c)) \<and>
            (\<forall>r\<in>set (comment_tbl s).
               postId_c r = id_p post \<and> parentCommentId r = None \<and>
               parentCommentId c = Some (id_c r) \<and> id_c r \<noteq> '''' \<longrightarrow>
               (\<exists>g\<in>set gs'. id_c g = id_c r \<and>
                  (\<exists>x\<in>set (subComments g). id_c x = id_c c \<and> deletedAt x = deletedAt c))))"
    using run root reply by (intro exI [of _ gs']) blast
qed (simp_all add: hideDeletedComments_def hideDeletedComment_def rec_defs)

theorem hideDeletedComments_masks_witness:
  "text_c (hideDeletedComments exLiked ! 1) = '''' \<and>
   likes_c (hideDeletedComments exLiked ! 1) = 0 \<and>
   isDeleted (hideDeletedComments exLiked ! 1) \<and>
   id_c (hideDeletedComments exLiked ! 1) = ''C'' \<and>
   hideDeletedComments exLiked ! 0 =
     comment_liked.extend (exLiked ! 0) (comment_shown.fields False) \<and>
   (\<exists>gs. findComments exDbR ''hello'' (Some ''u2'') = Inr gs \<and>
      (\<exists>g\<in>set gs. id_c g = ''C'' \<and> text_c g = '''' \<and> likes_c g = 0 \<and> isDeleted g) \<and>
      (\<exists>g\<in>set gs. id_c g = ''A'' \<and> text_c g = ''first'' \<and> likes_c g = 1 \<and> \<not> isDeleted g) \<and>
      (\<exists>g\<in>set gs. id_c g = ''B'' \<and>
         (\<exists>x\<in>set (subComments g). id_c x = ''B2'' \<and> text_c x = '''' \<and> likes_c x = 0 \<and>
             isDeleted x)))"
proof -
  have len: "0 < length exLiked" "1 < length exLiked"
    by (simp_all add: exLiked_def)
  have del: "deletedAt (exLiked ! 0) = None" "deletedAt (exLiked ! 1) \<noteq> None"
    "id_c (exLiked ! 1) = ''C''"
    by (simp_all add: exLiked_def mergeCommentLikeMap_def comment_with_user_def ex_defs rec_defs)
  note T = hideDeletedComments_masks [where cs = exLiked and s = exDbR and sl = "''hello''"
      and viewer = "Some ''u2''" and post = "hd (post_tbl exDbR)"]
  note m = T [THEN conjunct2, THEN conjunct1, rule_format]
  from m [OF len(1)] m [OF len(2)] del
  have old: "text_c (hideDeletedComments exLiked ! 1) = '''' \<and>
   likes_c (hideDeletedComments exLiked ! 1) = 0 \<and>
   isDeleted (hideDeletedComments exLiked ! 1) \<and>
   id_c (hideDeletedComments exLiked ! 1) = ''C'' \<and>
   hideDeletedComments exLiked ! 0 =
     comment_liked.extend (exLiked ! 0) (comment_shown.fields False)"
    by simp
  have post: "find (\<lambda>p. slug p = ''hello'') (post_tbl exDbR) = Some (hd (post_tbl exDbR))"
    by (simp add: exR_defs)
  from T [THEN conjunct2, THEN conjunct2, THEN conjunct2, THEN mp, OF post]
  obtain gs where run: "findComments exDbR ''hello'' (Some ''u2'') = Inr gs"
    and listed: "\<forall>c\<in>set (comment_tbl exDbR). postId_c c = id_p (hd (post_tbl exDbR)) \<longrightarrow>
            (parentCommentId c = None \<longrightarrow>
               (\<exists>g\<in>set gs. id_c g = id_c c \<and> deletedAt g = deletedAt c)) \<and>
            (\<forall>r\<in>set (comment_tbl exDbR).
               postId_c r = id_p (hd (post_tbl exDbR)) \<and> parentCommentId r = None \<and>
               parentCommentId c = Some (id_c r) \<and> id_c r \<noteq> '''' \<longrightarrow>
               (\<exists>g\<in>set gs. id_c g = id_c r \<and>
                  (\<exists>x\<in>set (subComments g). id_c x = id_c c \<and> deletedAt x = deletedAt c)))"
    by (elim exE conjE) (rule that)
  note masked = T [where gs = gs, THEN conjunct2, THEN conjunct2, THEN conjunct1, THEN mp, OF run,
      rule_format]
  have inC: "exC \<in> set (comment_tbl exDbR)" "postId_c exC = id_p (hd (post_tbl exDbR))"
    "parentCommentId exC = None" "id_c exC = ''C''" "deletedAt exC = Some 900"
    by (simp_all add: exR_defs)
  from listed [rule_format, OF inC(1,2), THEN conjunct1, rule_format, OF inC(3)]
  obtain gC where gC: "gC \<in> set gs" "id_c gC = ''C''" "deletedAt gC = Some 900"
    using inC(4,5) by auto
  from masked [OF gC(1), THEN conjunct1, THEN conjunct1] gC
  have 1: "\<exists>g\<in>set gs. id_c g = ''C'' \<and> text_c g = '''' \<and> likes_c g = 0 \<and> isDeleted g"
    by (intro bexI [of _ gC]) simp_all
  have inA: "exA \<in> set (comment_tbl exDbR)" "postId_c exA = id_p (hd (post_tbl exDbR))"
    "parentCommentId exA = None" "id_c exA = ''A''" "deletedAt exA = None"
    by (simp_all add: exR_defs)
  from listed [rule_format, OF inA(1,2), THEN conjunct1, rule_format, OF inA(3)]
  obtain gA where gA: "gA \<in> set gs" "id_c gA = ''A''" "deletedAt gA = None"
    using inA(4,5) by auto
  from masked [OF gA(1), THEN conjunct1, THEN conjunct2, THEN conjunct2] gA(2,3)
  obtain c where c: "c \<in> set (comment_tbl exDbR)" "id_c c = ''A''" "comment.truncate gA = c"
    by auto
  from c(1,2) have "c = exA" by (auto simp: exR_defs)
  with c(3) have "text_c (comment.truncate gA) = ''first''" "likes_c (comment.truncate gA) = 1"
    by (simp_all add: exA_def)
  then have "text_c gA = ''first''" "likes_c gA = 1"
    by (simp_all add: rec_defs)
  with masked [OF gA(1), THEN conjunct1, THEN conjunct2, THEN conjunct1] gA
  have 2: "\<exists>g\<in>set gs. id_c g = ''A'' \<and> text_c g = ''first'' \<and> likes_c g = 1 \<and> \<not> isDeleted g"
    by (intro bexI [of _ gA]) simp_all
  have inB2: "exB2\<lparr>deletedAt := Some 950\<rparr> \<in> set (comment_tbl exDbR)"
    "postId_c (exB2\<lparr>deletedAt := Some 950\<rparr>) = id_p (hd (post_tbl exDbR))"
    and inB: "exB \<in> set (comment_tbl exDbR)"
    "postId_c exB = id_p (hd (post_tbl exDbR)) \<and> parentCommentId exB = None \<and>
     parentCommentId (exB2\<lparr>deletedAt := Some 950\<rparr>) = Some (id_c exB) \<and> id_c exB \<noteq> ''''"
    and idB: "id_c exB = ''B''" "id_c (exB2\<lparr>deletedAt := Some 950\<rparr>) = ''B2''"
    "deletedAt (exB2\<lparr>deletedAt := Some 950\<rparr>) = Some 950"
    by (simp_all add: exR_defs)
  from listed [rule_format, OF inB2, THEN conjunct2, rule_format, OF inB]
  obtain gB x where gB: "gB \<in> set gs" "id_c gB = ''B''" "x \<in> set (subComments gB)"
    "id_c x = ''B2''" "deletedAt x = Some 950"
    using idB by auto
  from masked [OF gB(1), THEN conjunct2, rule_format, OF gB(3), THEN conjunct1] gB(4,5)
  have "id_c x = ''B2'' \<and> text_c x = '''' \<and> likes_c x = 0 \<and> isDeleted x" by simp
  with gB have 3: "\<exists>g\<in>set gs. id_c g = ''B'' \<and>
         (\<exists>x\<in>set (subComments g). id_c x = ''B2'' \<and> text_c x = '''' \<and> likes_c x = 0 \<and>
             isDeleted x)"
    by (intro bexI [of _ gB] conjI bexI [of _ x]) simp_all
  from old run 1 2 3 show ?thesis by blast
qed

subsection \<open>C5: grouping replies under their roots\<close>

text \<open>
  Claim C5: \<^verbatim>\<open>groupSubComments\<close> keeps the comments without a parent, in order, and
  attaches to each the comments whose parent id is its id, in order; and on the store
  \<open>exDb\<close> (roots \<open>A\<close>, \<open>B\<close>, \<open>C\<close> in creation order, replies \<open>B1\<close> and \<open>B2\<close> to \<open>B\<close>,
  \<open>C\<close> soft-deleted) \<^verbatim>\<open>findComments\<close> returns \<open>A\<close> with no replies, \<open>B\<close> with
  \<open>[B1, B2]\<close>, and the masked \<open>C\<close> with no replies, in this order.
\<close>

theorem findComments_groups_example:
  "groupSubComments cs =
     map (\<lambda>r. comment_shown.extend r
                 (comment_grouped.fields
                    (filter (\<lambda>c. parentCommentId c = Some (id_c r) \<and> id_c r \<noteq> '''') cs)))
       (filter (\<lambda>c. parentCommentId c = None) cs) \<and>
   findComments exDb ''hello'' None =
   Inr [\<lparr>id_c = ''A'', text_c = ''first'', userId_c = Some ''u1'',
         postId_c = ''p1'', parentCommentId = None, level = 0, likes_c = 1,
         subCommentsCount = 0, deletedAt = None, createdAt_c = 100,
         updatedAt_c = 100,
         user_c = \<lparr>id_a = Some ''u1'', username_a = Some ''alice''\<rparr>,
         isLiked_c = False, isDeleted = False, subComments = []\<rparr>,
      \<lparr>id_c = ''B'', text_c = ''second'', userId_c = Some ''u2'',
         postId_c = ''p1'', parentCommentId = None, level = 0, likes_c = 0,
         subCommentsCount = 2, deletedAt = None, createdAt_c = 200,
         updatedAt_c = 200,
         user_c = \<lparr>id_a = Some ''u2'', username_a = Some ''bob''\<rparr>,
         isLiked_c = False, isDeleted = False,
         subComments =
           [\<lparr>id_c = ''B1'', text_c = ''reply one'', userId_c = Some ''u1'',
               postId_c = ''p1'', parentCommentId = Some ''B'', level = 1,
               likes_c = 0, subCommentsCount = 0, deletedAt = None,
               createdAt_c = 300, updatedAt_c = 300,
               user_c = \<lparr>id_a = Some ''u1'', username_a = Some ''alice''\<rparr>,
               isLiked_c = False, isDeleted = False\<rparr>,
            \<lparr>id_c = ''B2'', text_c = ''reply two'', userId_c = Some ''u2'',
               postId_c = ''p1'', parentCommentId = Some ''B'', level = 1,
               likes_c = 0, subCommentsCount = 0, deletedAt = None,
               createdAt_c = 500, updatedAt_c = 500,
               user_c = \<lparr>id_a = Some ''u2'', username_a = Some ''bob''\<rparr>,
               isLiked_c = False, isDeleted = False\<rparr>]\<rparr>,
      \<lparr>id_c = ''C'', text_c = '''', userId_c = None, postId_c = ''p1'',
         parentCommentId = None, level = 0, likes_c = 0,
         subCommentsCount = 0, deletedAt = Some 900, createdAt_c = 0,
         updatedAt_c = 0, user_c = \<lparr>id_a = None, username_a = None\<rparr>,
         isLiked_c = False, isDeleted = True, subComments = []\<rparr>]"
proof (rule conjI)
  show "groupSubComments cs =
     map (\<lambda>r. comment_shown.extend r
                 (comment_grouped.fields
                    (filter (\<lambda>c. parentCommentId c = Some (id_c r) \<and> id_c r \<noteq> '''') cs)))
       (filter (\<lambda>c. parentCommentId c = None) cs)"
    by (rule groupSubComments_filter)
qed (simp add: eval_defs groupSubComments_def bucket_def ex_defs rec_defs)

subsection \<open>C6: the slug of a new post\<close>

text \<open>
  Claim C6, as amended: \<^verbatim>\<open>createPost\<close> derives the slug from the title and appends
  \<^verbatim>\<open>-\<close> and a random suffix when the derived slug is in use.  With a fresh post id: if
  the slug so chosen is in use by no post, the post and a stats row with both counters
  zero are stored and the post is returned; if the chosen slug is in use (the suffixed
  slug collides as well), the call fails with the unique-constraint error of the store
  and stores nothing.  The existence check is made once, on the derived slug only.
\<close>

theorem createPost_slug:
  fixes slugify :: "string \<Rightarrow> string" and dto :: createPostDto and s :: db
    and generateId newId userId :: string and now :: date
  defines "slug0 \<equiv> slugify (title_dto dto)"
  defines "slug1 \<equiv> (if \<exists>x\<in>set (post_tbl s). slug x = slug0 then slug0 @ ''-'' @ generateId else slug0)"
  defines "post \<equiv> \<lparr>id_p = newId, slug = slug1, title = title_dto dto, body = body_dto dto,
                     userId_p = userId, createdAt_p = now, updatedAt_p = now\<rparr>"
  assumes "\<forall>x\<in>set (post_tbl s). id_p x \<noteq> newId"
    and "\<forall>r\<in>set (postStats_tbl s). postId_s r \<noteq> newId"
  shows "((\<forall>x\<in>set (post_tbl s). slug x \<noteq> slug1) \<longrightarrow>
            createPost slugify generateId newId now userId dto s =
              (Inr post,
               s\<lparr>post_tbl := post_tbl s @ [post],
                 postStats_tbl := postStats_tbl s @
                   [\<lparr>postId_s = newId, likes_s = 0, commentsCount = 0\<rparr>]\<rparr>)) \<and>
         ((\<exists>x\<in>set (post_tbl s). slug x = slug1) \<longrightarrow>
            createPost slugify generateId newId now userId dto s = (Inl UniqueConstraint, s))"
proof -
  have s1: "(if find (\<lambda>p. slug p = slug0) (post_tbl s) \<noteq> None then slug0 @ ''-'' @ generateId else slug0) = slug1"
    unfolding slug1_def by (auto simp: find_None_iff)
  have run: "createPost slugify generateId newId now userId dto s =
      (case post_create post s of
           (Inl e, s1) \<Rightarrow> (Inl e, s1)
         | (Inr post, s1) \<Rightarrow>
             (case postStats_create
                     \<lparr>postId_s = id_p post, likes_s = 0, commentsCount = 0\<rparr> s1 of
                (Inl e, s2) \<Rightarrow> (Inl e, s2)
              | (Inr _, s2) \<Rightarrow> (Inr post, s2)))"
    unfolding createPost_def Let_def slug0_def [symmetric] s1 post_def ..
  show ?thesis
  proof (intro conjI impI)
    assume free: "\<forall>x\<in>set (post_tbl s). slug x \<noteq> slug1"
    have pc: "post_create post s = (Inr post, s\<lparr>post_tbl := post_tbl s @ [post]\<rparr>)"
      by (rule post_create_ok) (simp add: post_def assms(4) free)
    have sc: "postStats_create \<lparr>postId_s = newId, likes_s = 0, commentsCount = 0\<rparr>
                (s\<lparr>post_tbl := post_tbl s @ [post]\<rparr>) =
              (Inr \<lparr>postId_s = newId, likes_s = 0, commentsCount = 0\<rparr>,
               s\<lparr>post_tbl := post_tbl s @ [post],
                 postStats_tbl := postStats_tbl s @
                   [\<lparr>postId_s = newId, likes_s = 0, commentsCount = 0\<rparr>]\<rparr>)"
      using postStats_create_ok [of "s\<lparr>post_tbl := post_tbl s @ [post]\<rparr>"
          "\<lparr>postId_s = newId, likes_s = 0, commentsCount = 0\<rparr>"] assms(5)
      by simp
    have "id_p post = newId" by (simp add: post_def)
    with pc sc show "createPost slugify generateId newId now userId dto s =
              (Inr post,
               s\<lparr>post_tbl := post_tbl s @ [post],
                 postStats_tbl := postStats_tbl s @
                   [\<lparr>postId_s = newId, likes_s = 0, commentsCount = 0\<rparr>]\<rparr>)"
      by (simp add: run)
  next
    assume "\<exists>x\<in>set (post_tbl s). slug x = slug1"
    then obtain x where "x \<in> set (post_tbl s)" "slug x = slug post"
      by (auto simp: post_def)
    then have "post_create post s = (Inl UniqueConstraint, s)"
      by (rule post_create_taken)
    then show "createPost slugify generateId newId now userId dto s = (Inl UniqueConstraint, s)"
      by (simp add: run)
  qed
qed

text \<open>
  With \<^verbatim>\<open>slugify\<close> the identity on the title \<^verbatim>\<open>hello\<close>: on \<open>exDb\<close> the slug
  \<^verbatim>\<open>hello\<close> is in use and the suffix \<^verbatim>\<open>k3\<close> gives the free slug \<^verbatim>\<open>hello-k3\<close>.
\<close>

theorem createPost_slug_witness:
  "createPost id ''k3'' ''p3'' 30 ''u2'' \<lparr>title_dto = ''hello'', body_dto = ''third''\<rparr> exDb =
     (Inr \<lparr>id_p = ''p3'', slug = ''hello-k3'', title = ''hello'', body = ''third'',
            userId_p = ''u2'', createdAt_p = 30, updatedAt_p = 30\<rparr>,
      exDb\<lparr>post_tbl := post_tbl exDb @
              [\<lparr>id_p = ''p3'', slug = ''hello-k3'', title = ''hello'', body = ''third'',
                userId_p = ''u2'', createdAt_p = 30, updatedAt_p = 30\<rparr>],
           postStats_tbl := postStats_tbl exDb @
              [\<lparr>postId_s = ''p3'', likes_s = 0, commentsCount = 0\<rparr>]\<rparr>) \<and>
   createPost id ''x7'' ''p3'' 30 ''u2'' \<lparr>title_dto = ''hello'', body_dto = ''third''\<rparr> exDb2 =
     (Inl UniqueConstraint, exDb2)"
proof -
  have fresh: "\<forall>x\<in>set (post_tbl exDb). id_p x \<noteq> ''p3''"
    "\<forall>r\<in>set (postStats_tbl exDb). postId_s r \<noteq> ''p3''"
    by (simp_all add: exDb_def)
  have fresh2: "\<forall>x\<in>set (post_tbl exDb2). id_p x \<noteq> ''p3''"
    "\<forall>r\<in>set (postStats_tbl exDb2). postId_s r \<noteq> ''p3''"
    by (simp_all add: exDb2_def exDb_def)
  have slug1: "(if \<exists>x\<in>set (post_tbl exDb). slug x = id (title_dto \<lparr>title_dto = ''hello'', body_dto = ''third''\<rparr>)
                then id (title_dto \<lparr>title_dto = ''hello'', body_dto = ''third''\<rparr>) @ ''-'' @ ''k3''
                else id (title_dto \<lparr>title_dto = ''hello'', body_dto = ''third''\<rparr>)) = ''hello-k3''"
    by (simp add: exDb_def)
  have slug2: "(if \<exists>x\<in>set (post_tbl exDb2). slug x = id (title_dto \<lparr>title_dto = ''hello'', body_dto = ''third''\<rparr>)
                then id (title_dto \<lparr>title_dto = ''hello'', body_dto = ''third''\<rparr>) @ ''-'' @ ''x7''
                else id (title_dto \<lparr>title_dto = ''hello'', body_dto = ''third''\<rparr>)) = ''hello-x7''"
    by (simp add: exDb2_def exDb_def)
  have free: "\<forall>x\<in>set (post_tbl exDb). slug x \<noteq> ''hello-k3''"
    by (simp add: exDb_def)
  have taken: "\<exists>x\<in>set (post_tbl exDb2). slug x = ''hello-x7''"
    by (simp add: exDb2_def exDb_def)
  from createPost_slug [OF fresh, of id "\<lparr>title_dto = ''hello'', body_dto = ''third''\<rparr>" "''k3''" 30 "''u2''",
      unfolded slug1, THEN conjunct1] free
  have 1: "createPost id ''k3'' ''p3'' 30 ''u2'' \<lparr>title_dto = ''hello'', body_dto = ''third''\<rparr> exDb =
     (Inr \<lparr>id_p = ''p3'', slug = ''hello-k3'', title = ''hello'', body = ''third'',
            userId_p = ''u2'', createdAt_p = 30, updatedAt_p = 30\<rparr>,
      exDb\<lparr>post_tbl := post_tbl exDb @
              [\<lparr>id_p = ''p3'', slug = ''hello-k3'', title = ''hello'', body = ''third'',
                userId_p = ''u2'', createdAt_p = 30, updatedAt_p = 30\<rparr>],
           postStats_tbl := postStats_tbl exDb @
              [\<lparr>postId_s = ''p3'', likes_s = 0, commentsCount = 0\<rparr>]\<rparr>)"
    by simp
  from createPost_slug [OF fresh2, of id "\<lparr>title_dto = ''hello'', body_dto = ''third''\<rparr>" "''x7''" 30 "''u2''",
      unfolded slug2, THEN conjunct2] taken
  have 2: "createPost id ''x7'' ''p3'' 30 ''u2'' \<lparr>title_dto = ''hello'', body_dto = ''third''\<rparr> exDb2 =
     (Inl UniqueConstraint, exDb2)"
    by simp
  from 1 2 show ?thesis by simp
qed

text \<open>
  Claim C6 as stated says that a slug collision never blocks creation.  On \<open>exDb2\<close> the
  slugs \<^verbatim>\<open>hello\<close> and \<^verbatim>\<open>hello-x7\<close> are both in use; when the generator returns
  \<^verbatim>\<open>x7\<close> the call fails and the store is unchanged.
\<close>

theorem createPost_blocked_by_collision:
  "createPost id ''x7'' ''p3'' 30 ''u1'' \<lparr>title_dto = ''hello'', body_dto = ''third''\<rparr> exDb2 =
     (Inl UniqueConstraint, exDb2)"
  by (simp add: createPost_def post_create_def exDb2_def exDb_def)

subsection \<open>C7: the comment count of a post\<close>

text \<open>
  Claim C7: after a \<^verbatim>\<open>createComment\<close> call that returns a comment, the stats row of
  the post holds as \<^verbatim>\<open>commentsCount\<close> the number of all comment rows of the post, which
  is the number of live ones plus the number of soft-deleted ones.
\<close>

theorem createComment_commentsCount:
  assumes "createComment newId now userId dto s = (Inr c, s')"
  shows "\<exists>r. find (\<lambda>r. postId_s r = postId_dto dto) (postStats_tbl s') = Some r \<and>
             commentsCount r =
               int (length (filter (\<lambda>x. postId_c x = postId_dto dto) (comment_tbl s'))) \<and>
             commentsCount r =
               int (length (filter (\<lambda>x. postId_c x = postId_dto dto \<and> deletedAt x = None)
                              (comment_tbl s'))) +
               int (length (filter (\<lambda>x. postId_c x = postId_dto dto \<and> deletedAt x \<noteq> None)
                              (comment_tbl s')))"
proof -
  from createComment_Inr [OF assms] obtain s2 n
    where "updatePostCommentsCount (postId_dto dto) s2 = (Inr n, s')" by blast
  from updatePostCommentsCount_Inr [OF this] obtain r
    where r: "find (\<lambda>r. postId_s r = postId_dto dto) (postStats_tbl s') = Some r"
      and n: "commentsCount r = count_where (\<lambda>c. postId_c c = postId_dto dto) (comment_tbl s')"
    by auto
  have split: "length (filter P xs) = length (filter (\<lambda>x. P x \<and> Q x) xs) +
      length (filter (\<lambda>x. P x \<and> \<not> Q x) xs)" for P Q :: "comment \<Rightarrow> bool" and xs
    by (induction xs) auto
  from n have "commentsCount r =
      int (length (filter (\<lambda>x. postId_c x = postId_dto dto) (comment_tbl s')))"
    by (simp add: count_where_def)
  moreover have "\<dots> = int (length (filter (\<lambda>x. postId_c x = postId_dto dto \<and> deletedAt x = None)
                              (comment_tbl s'))) +
               int (length (filter (\<lambda>x. postId_c x = postId_dto dto \<and> deletedAt x \<noteq> None)
                              (comment_tbl s')))"
    using split [of "\<lambda>x. postId_c x = postId_dto dto" "comment_tbl s'" "\<lambda>x. deletedAt x = None"]
    by simp
  ultimately show ?thesis using r by simp
qed

theorem createComment_commentsCount_witness:
  "createComment ''N'' 1000 ''u2''
     \<lparr>text_dto = ''new'', postId_dto = ''p1'', parentCommentId_dto = None\<rparr> exDb =
     (Inr exNew,
      exDb\<lparr>comment_tbl := comment_tbl exDb @ [exNew],
           postStats_tbl := [\<lparr>postId_s = ''p1'', likes_s = 0, commentsCount = 6\<rparr>]\<rparr>) \<and>
   length (filter (\<lambda>x. postId_c x = ''p1'' \<and> deletedAt x \<noteq> None) (comment_tbl exDb @ [exNew])) = 1 \<and>
   (\<exists>r. find (\<lambda>r. postId_s r = ''p1'')
            [\<lparr>postId_s = ''p1'', likes_s = 0, commentsCount = 6\<rparr>] = Some r \<and>
        commentsCount r =
          int (length (filter (\<lambda>x. postId_c x = ''p1'') (comment_tbl exDb @ [exNew]))) \<and>
        commentsCount r =
          int (length (filter (\<lambda>x. postId_c x = ''p1'' \<and> deletedAt x = None)
                         (comment_tbl exDb @ [exNew]))) +
          int (length (filter (\<lambda>x. postId_c x = ''p1'' \<and> deletedAt x \<noteq> None)
                         (comment_tbl exDb @ [exNew]))))"
proof -
  have run: "createComment ''N'' 1000 ''u2''
     \<lparr>text_dto = ''new'', postId_dto = ''p1'', parentCommentId_dto = None\<rparr> exDb =
     (Inr exNew,
      exDb\<lparr>comment_tbl := comment_tbl exDb @ [exNew],
           postStats_tbl := [\<lparr>postId_s = ''p1'', likes_s = 0, commentsCount = 6\<rparr>]\<rparr>)"
    by (simp add: run_defs ex_defs exNew_def Let_def)
  have del: "length (filter (\<lambda>x. postId_c x = ''p1'' \<and> deletedAt x \<noteq> None)
                 (comment_tbl exDb @ [exNew])) = 1"
    by (simp add: ex_defs exNew_def)
  from createComment_commentsCount [OF run] run del show ?thesis by simp
qed

subsection \<open>C8: direct lookup of a comment\<close>



subsection \<open>C9: soft deletion\<close>

text \<open>
  Claim C9: for a live comment \<open>c\<close> in a store whose comment ids are unique,
  \<^verbatim>\<open>deleteComment\<close> by a user who is not the author fails with \<open>Unauthorized\<close> and
  returns the store unchanged; by the author it returns the row \<open>d\<close> that replaces \<open>c\<close>
  in the comment table, with the delete timestamp set to the time of the call and with
  the id, text, author, post, parent, level, likes, sub-comment count and creation time
  of \<open>c\<close>; every other comment row and every other table, the stats of the post among
  them, is unchanged.
\<close>

theorem deleteComment_frame:
  assumes "distinct (map id_c (comment_tbl s))"
    and "c \<in> set (comment_tbl s)" and "deletedAt c = None"
  shows "(userId_c c \<noteq> Some userId \<longrightarrow>
            deleteComment now userId (id_c c) s = (Inl Unauthorized, s)) \<and>
         (userId_c c = Some userId \<longrightarrow>
            (\<exists>d s'. deleteComment now userId (id_c c) s = (Inr d, s') \<and>
                  deletedAt d = Some now \<and>
                  id_c d = id_c c \<and> text_c d = text_c c \<and> userId_c d = userId_c c \<and>
                  postId_c d = postId_c c \<and> parentCommentId d = parentCommentId c \<and>
                  level d = level c \<and> likes_c d = likes_c c \<and>
                  subCommentsCount d = subCommentsCount c \<and> createdAt_c d = createdAt_c c \<and>
                  comment_tbl s' = map (\<lambda>x. if x = c then d else x) (comment_tbl s) \<and>
                  postStats_tbl s' = postStats_tbl s \<and> post_tbl s' = post_tbl s \<and>
                  postLike_tbl s' = postLike_tbl s \<and> commentLike_tbl s' = commentLike_tbl s \<and>
                  user_tbl s' = user_tbl s))"
proof (intro conjI impI)
  assume "userId_c c \<noteq> Some userId"
  then show "deleteComment now userId (id_c c) s = (Inl Unauthorized, s)"
    by (simp add: deleteComment_def findComment_live [OF assms] userId_comment_with_user)
next
  assume own: "userId_c c = Some userId"
  let ?f = "\<lambda>x. x\<lparr>deletedAt := Some now\<rparr>"
  let ?P = "\<lambda>x. id_c x = id_c c"
  have fnd: "find ?P (comment_tbl s) = Some c"
    by (rule find_key_distinct [OF assms(1,2)])
  then obtain ys where ys: "update_first ?P ?f (comment_tbl s) = Some ys"
    using update_first_None [of ?P ?f "comment_tbl s"] by (cases "update_first ?P ?f (comment_tbl s)") auto
  have ys_eq: "ys = map (\<lambda>x. if id_c x = id_c c then ?f x else x) (comment_tbl s)"
    by (rule update_first_distinct [OF assms(1) ys])
  have fnd': "find ?P ys = Some (?f c)"
    by (rule find_update_first [OF fnd _ ys]) simp
  have same: "x = c" if "x \<in> set (comment_tbl s)" "id_c x = id_c c" for x
  proof -
    have "find (\<lambda>y. id_c y = id_c x) (comment_tbl s) = Some x"
      by (rule find_key_distinct [OF assms(1) that(1)])
    then have "find (\<lambda>y. id_c y = id_c c) (comment_tbl s) = Some x"
      unfolding that(2) .
    with fnd show ?thesis by simp
  qed
  have "map (\<lambda>x. if id_c x = id_c c then ?f x else x) (comment_tbl s) =
        map (\<lambda>x. if x = c then ?f c else x) (comment_tbl s)"
  proof (rule map_cong [OF refl])
    fix x assume "x \<in> set (comment_tbl s)"
    then show "(if id_c x = id_c c then ?f x else x) = (if x = c then ?f c else x)"
      using same [of x] by (cases "x = c") auto
  qed
  with ys_eq have tbl: "ys = map (\<lambda>x. if x = c then ?f c else x) (comment_tbl s)"
    by simp
  have run: "deleteComment now userId (id_c c) s = (Inr (?f c), s\<lparr>comment_tbl := ys\<rparr>)"
    using own ys fnd'
    by (simp add: deleteComment_def findComment_live [OF assms] userId_comment_with_user
        comment_update_def)
  show "\<exists>d s'. deleteComment now userId (id_c c) s = (Inr d, s') \<and>
                  deletedAt d = Some now \<and>
                  id_c d = id_c c \<and> text_c d = text_c c \<and> userId_c d = userId_c c \<and>
                  postId_c d = postId_c c \<and> parentCommentId d = parentCommentId c \<and>
                  level d = level c \<and> likes_c d = likes_c c \<and>
                  subCommentsCount d = subCommentsCount c \<and> createdAt_c d = createdAt_c c \<and>
                  comment_tbl s' = map (\<lambda>x. if x = c then d else x) (comment_tbl s) \<and>
                  postStats_tbl s' = postStats_tbl s \<and> post_tbl s' = post_tbl s \<and>
                  postLike_tbl s' = postLike_tbl s \<and> commentLike_tbl s' = commentLike_tbl s \<and>
                  user_tbl s' = user_tbl s"
    by (rule exI [of _ "?f c"], rule exI [of _ "s\<lparr>comment_tbl := ys\<rparr>"]) (simp add: run tbl [symmetric])
qed

theorem deleteComment_frame_witness:
  "deleteComment 1000 ''u2'' ''A'' exDb = (Inl Unauthorized, exDb) \<and>
   (\<exists>d s'. deleteComment 1000 ''u1'' ''A'' exDb = (Inr d, s') \<and>
           deletedAt d = Some 1000 \<and> text_c d = ''first'' \<and> likes_c d = 1 \<and>
           postStats_tbl s' = postStats_tbl exDb)"
proof -
  have d: "distinct (map id_c (comment_tbl exDb))"
    by (simp add: ex_defs)
  have a: "exA \<in> set (comment_tbl exDb)" "deletedAt exA = None"
    by (simp_all add: ex_defs)
  have f: "id_c exA = ''A''" "userId_c exA \<noteq> Some ''u2''" "userId_c exA = Some ''u1''"
    "text_c exA = ''first''" "likes_c exA = 1"
    by (simp_all add: ex_defs)
  from deleteComment_frame [OF d a, of "''u2''" 1000, THEN conjunct1] f
  have 1: "deleteComment 1000 ''u2'' ''A'' exDb = (Inl Unauthorized, exDb)" by simp
  from deleteComment_frame [OF d a, of "''u1''" 1000, THEN conjunct2] f
  have 2: "\<exists>d s'. deleteComment 1000 ''u1'' ''A'' exDb = (Inr d, s') \<and>
           deletedAt d = Some 1000 \<and> text_c d = ''first'' \<and> likes_c d = 1 \<and>
           postStats_tbl s' = postStats_tbl exDb"
    by auto
  from 1 2 show ?thesis by simp
qed

subsection \<open>C10: comments without a root parent are dropped\<close>

text \<open>
  Claim C10: a comment whose parent id is set, and is the id of no root comment of the
  list, is left out by \<^verbatim>\<open>groupSubComments\<close>: it is no element of any
  \<^verbatim>\<open>subComments\<close> of the result and no top-level element of it.
\<close>

theorem groupSubComments_drops_orphans:
  assumes "parentCommentId c = Some p"
    and "\<forall>r\<in>set cs. parentCommentId r = None \<longrightarrow> id_c r \<noteq> p"
  shows "\<forall>g\<in>set (groupSubComments cs).
           c \<notin> set (subComments g) \<and> comment_shown.truncate g \<noteq> c"
proof
  fix g assume "g \<in> set (groupSubComments cs)"
  then obtain r where r: "r \<in> set cs" "parentCommentId r = None"
    and g: "g = comment_shown.extend r
                 (comment_grouped.fields
                    (filter (\<lambda>c. parentCommentId c = Some (id_c r) \<and> id_c r \<noteq> '''') cs))"
    unfolding groupSubComments_filter by auto
  have "comment_shown.truncate g = r" "subComments g = filter (\<lambda>c. parentCommentId c = Some (id_c r) \<and> id_c r \<noteq> '''') cs"
    by (simp_all add: g rec_defs)
  moreover have "id_c r \<noteq> p" using assms(2) r by blast
  ultimately show "c \<notin> set (subComments g) \<and> comment_shown.truncate g \<noteq> c"
    using assms(1) r(2) by auto
qed

theorem groupSubComments_drops_orphans_witness:
  "parentCommentId (exOrphans ! 1) = Some ''B'' \<and> exOrphans ! 1 \<in> set exOrphans \<and>
   \<not> (\<exists>g\<in>set (groupSubComments exOrphans).
        exOrphans ! 1 \<in> set (subComments g) \<or> comment_shown.truncate g = exOrphans ! 1)"
proof -
  have p: "parentCommentId (exOrphans ! 1) = Some ''B''"
    by (simp add: exOrphans_def hideDeletedComments_def hideDeletedComment_def
        mergeCommentLikeMap_def comment_with_user_def ex_defs rec_defs)
  have noroot: "\<forall>r\<in>set exOrphans. parentCommentId r = None \<longrightarrow> id_c r \<noteq> ''B''"
    by (simp add: exOrphans_def hideDeletedComments_def hideDeletedComment_def
        mergeCommentLikeMap_def comment_with_user_def ex_defs rec_defs)
  have mem: "exOrphans ! 1 \<in> set exOrphans"
    by (simp add: exOrphans_def hideDeletedComments_def)
  from groupSubComments_drops_orphans [OF p noroot] p mem show ?thesis by blast
qed

end
